theory Spec2Isabelle
  imports Main
begin

section \<open>JavaScript values\<close>

text \<open>
  The constructor inspects its argument with \<^verbatim>\<open>typeof\<close>, \<^verbatim>\<open>!\<close> and
  \<^verbatim>\<open>!== undefined\<close>, so the run-time values a caller can pass are modelled, not only
  the ones the TypeScript interface admits. The numbers modelled are the integers, the
  negative zero, the two infinities and NaN: the code looks at a number's type and
  truthiness, and makes numbers with \<^verbatim>\<open>parseInt\<close> only.
\<close>

datatype jsnumber = Num int | NegZero | Infinity | NegInfinity | NaN

datatype jsval =
    JUndefined
  | JNull
  | JBool bool
  | JNumber jsnumber
  | JStr string
  | JObject

fun truthy :: "jsval \<Rightarrow> bool" where
  "truthy JUndefined = False"
| "truthy JNull = False"
| "truthy (JBool b) = b"
| "truthy (JNumber n) = (n \<noteq> Num 0 \<and> n \<noteq> NegZero \<and> n \<noteq> NaN)"
| "truthy (JStr s) = (s \<noteq> [])"
| "truthy JObject = True"

fun typeof :: "jsval \<Rightarrow> string" where
  "typeof JUndefined = ''undefined''"
| "typeof JNull = ''object''"
| "typeof (JBool b) = ''boolean''"
| "typeof (JNumber n) = ''number''"
| "typeof (JStr s) = ''string''"
| "typeof JObject = ''object''"

text \<open>Reading a property that the object does not have gives \<^verbatim>\<open>undefined\<close>.\<close>

definition getProp :: "jsval option \<Rightarrow> jsval" where
  "getProp f = (case f of None \<Rightarrow> JUndefined | Some v \<Rightarrow> v)"

text \<open>
  \<^verbatim>\<open>Object.assign(target, source)\<close> on one property: an own property of the source
  overwrites the target's, also when its value is \<^verbatim>\<open>undefined\<close>; a property the
  source does not have leaves the target's value.
\<close>

definition assign :: "jsval \<Rightarrow> jsval option \<Rightarrow> jsval" where
  "assign dflt f = (case f of None \<Rightarrow> dflt | Some v \<Rightarrow> v)"

section \<open>Errors\<close>

datatype error =
    Error string           \<comment> \<open>\<^verbatim>\<open>new Error(message)\<close> thrown by the scraper itself\<close>
  | SessionExpired string  \<comment> \<open>\<^verbatim>\<open>new SessionExpired(message)\<close>\<close>
  | EngineError string     \<comment> \<open>an error raised by the browser-automation engine\<close>
  | KillFailed nat         \<comment> \<open>the rejection \<^verbatim>\<open>Failed to kill browser process pid: N\<close>\<close>

section \<open>Options and the constructor\<close>

record ScraperUserDefinedOptions =
  u_sessionCookieValue :: "jsval option"
  u_keepAlive :: "jsval option"
  u_userAgent :: "jsval option"
  u_timeout :: "jsval option"
  u_headless :: "jsval option"

record ScraperOptions =
  sessionCookieValue :: jsval
  keepAlive :: jsval
  userAgent :: jsval
  timeout :: jsval
  headless :: jsval

definition defaultUserAgent :: string where
  "defaultUserAgent =
     ''Mozilla/5.0 (Windows NT 10.0; Win64; x64) AppleWebKit/537.36 (KHTML, like Gecko) Chrome/69.0.3497.100 Safari/537.36''"

definition defaultOptions :: ScraperOptions where
  "defaultOptions =
     \<lparr> sessionCookieValue = JStr '''',
       keepAlive = JBool False,
       userAgent = JStr defaultUserAgent,
       timeout = JNumber (Num 10000),
       headless = JBool True \<rparr>"

definition quoted :: "string \<Rightarrow> string" where
  "quoted s = CHR 0x22 # s @ [CHR 0x22]"

definition errorPrefix :: string where
  "errorPrefix = ''Error during setup.''"

definition optionError :: "string \<Rightarrow> string \<Rightarrow> error" where
  "optionError name what = Error (errorPrefix @ '' Option '' @ quoted name @ '' '' @ what)"

definition objectAssign :: "ScraperOptions \<Rightarrow> ScraperUserDefinedOptions \<Rightarrow> ScraperOptions" where
  "objectAssign d u =
     \<lparr> sessionCookieValue = assign (sessionCookieValue d) (u_sessionCookieValue u),
       keepAlive = assign (keepAlive d) (u_keepAlive u),
       userAgent = assign (userAgent d) (u_userAgent u),
       timeout = assign (timeout d) (u_timeout u),
       headless = assign (headless d) (u_headless u) \<rparr>"

text \<open>
  The constructor of \<^verbatim>\<open>LinkedInProfileScraper\<close>: six checks in the order of the source,
  each throwing; then \<^verbatim>\<open>Object.assign(this.options, userDefinedOptions)\<close>. The result
  is the \<^verbatim>\<open>options\<close> field of the new object; its \<^verbatim>\<open>browser\<close> field starts as null
  (see \<open>construct\<close> below).
\<close>

definition constructor :: "ScraperUserDefinedOptions \<Rightarrow> error + ScraperOptions" where
  "constructor u =
     (if \<not> truthy (getProp (u_sessionCookieValue u)) then
        Inl (optionError ''sessionCookieValue'' ''is required.'')
      else if truthy (getProp (u_sessionCookieValue u)) \<and>
              typeof (getProp (u_sessionCookieValue u)) \<noteq> ''string'' then
        Inl (optionError ''sessionCookieValue'' ''needs to be a string.'')
      else if truthy (getProp (u_userAgent u)) \<and> typeof (getProp (u_userAgent u)) \<noteq> ''string'' then
        Inl (optionError ''userAgent'' ''needs to be a string.'')
      else if getProp (u_keepAlive u) \<noteq> JUndefined \<and> typeof (getProp (u_keepAlive u)) \<noteq> ''boolean'' then
        Inl (optionError ''keepAlive'' ''needs to be a boolean.'')
      else if getProp (u_timeout u) \<noteq> JUndefined \<and> typeof (getProp (u_timeout u)) \<noteq> ''number'' then
        Inl (optionError ''timeout'' ''needs to be a number.'')
      else if getProp (u_headless u) \<noteq> JUndefined \<and> typeof (getProp (u_headless u)) \<noteq> ''boolean'' then
        Inl (optionError ''headless'' ''needs to be a boolean.'')
      else Inr (objectAssign defaultOptions u))"

subsection \<open>The validation order as the specification words it\<close>

datatype field = FSessionCookieValue | FUserAgent | FKeepAlive | FTimeout | FHeadless

text \<open>The option an error message names, read off the message text.\<close>

definition namedField :: "error \<Rightarrow> field option" where
  "namedField e =
     (if e = optionError ''sessionCookieValue'' ''is required.'' then Some FSessionCookieValue
      else if e = optionError ''sessionCookieValue'' ''needs to be a string.'' then Some FSessionCookieValue
      else if e = optionError ''userAgent'' ''needs to be a string.'' then Some FUserAgent
      else if e = optionError ''keepAlive'' ''needs to be a boolean.'' then Some FKeepAlive
      else if e = optionError ''timeout'' ''needs to be a number.'' then Some FTimeout
      else if e = optionError ''headless'' ''needs to be a boolean.'' then Some FHeadless
      else None)"

text \<open>
  An optional field is wrongly typed when it is supplied (not \<^verbatim>\<open>undefined\<close>) and its
  type is not the documented one.
\<close>

definition wronglyTyped :: "string \<Rightarrow> jsval \<Rightarrow> bool" where
  "wronglyTyped ty v = (v \<noteq> JUndefined \<and> typeof v \<noteq> ty)"

text \<open>
  The specification's reading: token presence, token type, user-agent type, keepAlive
  type, timeout type, headless type, every type check alike.
\<close>

definition spec_firstInvalid :: "ScraperUserDefinedOptions \<Rightarrow> field option" where
  "spec_firstInvalid u =
     (if \<not> truthy (getProp (u_sessionCookieValue u)) then Some FSessionCookieValue
      else if typeof (getProp (u_sessionCookieValue u)) \<noteq> ''string'' then Some FSessionCookieValue
      else if wronglyTyped ''string'' (getProp (u_userAgent u)) then Some FUserAgent
      else if wronglyTyped ''boolean'' (getProp (u_keepAlive u)) then Some FKeepAlive
      else if wronglyTyped ''number'' (getProp (u_timeout u)) then Some FTimeout
      else if wronglyTyped ''boolean'' (getProp (u_headless u)) then Some FHeadless
      else None)"

text \<open>
  The same order with the user-agent check as the code guards it: only a truthy user
  agent is type-checked.
\<close>

definition firstInvalid :: "ScraperUserDefinedOptions \<Rightarrow> field option" where
  "firstInvalid u =
     (if \<not> truthy (getProp (u_sessionCookieValue u)) then Some FSessionCookieValue
      else if typeof (getProp (u_sessionCookieValue u)) \<noteq> ''string'' then Some FSessionCookieValue
      else if truthy (getProp (u_userAgent u)) \<and> typeof (getProp (u_userAgent u)) \<noteq> ''string''
        then Some FUserAgent
      else if wronglyTyped ''boolean'' (getProp (u_keepAlive u)) then Some FKeepAlive
      else if wronglyTyped ''number'' (getProp (u_timeout u)) then Some FTimeout
      else if wronglyTyped ''boolean'' (getProp (u_headless u)) then Some FHeadless
      else None)"

text \<open>What the constructor reports: the field its error names, or none when it returns.\<close>

definition rejectedField :: "ScraperUserDefinedOptions \<Rightarrow> field option" where
  "rejectedField u = (case constructor u of Inl e \<Rightarrow> namedField e | Inr _ \<Rightarrow> None)"

definition throws :: "ScraperUserDefinedOptions \<Rightarrow> bool" where
  "throws u = (case constructor u of Inl _ \<Rightarrow> True | Inr _ \<Rightarrow> False)"

section \<open>The request-interception policy of createPage\<close>

record request =
  resourceType :: string
  url :: string

datatype verdict = Abort | Continue

definition blockedResources :: "string list" where
  "blockedResources = [''image'', ''media'', ''font'', ''texttrack'', ''manifest'']"

definition allowedHostnames :: "string list" where
  "allowedHostnames =
     [''linkedin.com'', ''www.linkedin.com'', ''platform.linkedin.com'',
      ''realtime.www.linkedin.com'']"

definition blockedUrls :: "string list" where
  "blockedUrls = [''https://www.linkedin.com/li/track'']"

text \<open>
  The handler installed with \<^verbatim>\<open>page.on("request", ...)\<close>. \<^verbatim>\<open>getHostname\<close> comes from
  the utilities module, which is not among the sources, so it is a parameter: it gives
  the hostname of a URL, or nothing. A missing and an empty hostname are both falsy.
\<close>

definition requestHandler :: "(string \<Rightarrow> string option) \<Rightarrow> request \<Rightarrow> verdict" where
  "requestHandler getHostname req =
     (if resourceType req \<in> set blockedResources then Abort
      else
        let hostname = getHostname (url req) in
        if url req \<in> set blockedUrls then Abort
        else if (case hostname of None \<Rightarrow> False | Some h \<Rightarrow> h \<noteq> [] \<and> h \<notin> set allowedHostnames)
          then Abort
        else Continue)"

text \<open>
  Modelled from the spec: \<^verbatim>\<open>getHostname\<close> of the utilities module is missing from the
  sources. The specification speaks of the hostname of the request's URL: here, the text
  between \<^verbatim>\<open>://\<close> and the next \<^verbatim>\<open>/\<close>, \<^verbatim>\<open>:\<close>, \<^verbatim>\<open>?\<close> or \<^verbatim>\<open>#\<close>; nothing when the
  URL has no \<^verbatim>\<open>://\<close>.
\<close>

fun afterScheme :: "string \<Rightarrow> string option" where
  "afterScheme [] = None"
| "afterScheme (c # cs) =
     (if c = CHR '':'' \<and> take 2 cs = ''//'' then Some (drop 2 cs) else afterScheme cs)"

definition hostnameOfUrl :: "string \<Rightarrow> string option" where
  "hostnameOfUrl u =
     (case afterScheme u of
        None \<Rightarrow> None
      | Some r \<Rightarrow> Some (takeWhile (\<lambda>c. c \<notin> set ''/:?#'') r))"

section \<open>Text scraped from the document\<close>

text \<open>
  Text read from the DOM is a JavaScript string: a sequence of UTF-16 code units. The
  date ranges are split at an en dash (U+2013), which is one code unit.
\<close>

type_synonym jsstring = "nat list"

definition js :: "string \<Rightarrow> jsstring" where
  "js s = map of_char s"

definition enDash :: nat where
  "enDash = 8211"

text \<open>\<^verbatim>\<open>s.split(sep)\<close> for a separator of one code unit; the result is never empty.\<close>

fun split :: "nat \<Rightarrow> jsstring \<Rightarrow> jsstring list" where
  "split sep [] = [[]]"
| "split sep (c # cs) =
     (if c = sep then [] # split sep cs
      else (case split sep cs of [] \<Rightarrow> [[c]] | seg # segs \<Rightarrow> (c # seg) # segs))"

text \<open>\<^verbatim>\<open>xs[i]\<close>: \<^verbatim>\<open>undefined\<close> out of range.\<close>

definition at :: "'a list \<Rightarrow> nat \<Rightarrow> 'a option" where
  "at xs i = (if i < length xs then Some (xs ! i) else None)"

text \<open>ECMAScript's WhiteSpace and LineTerminator code points, which \<^verbatim>\<open>trim\<close> strips.\<close>

definition isWhiteSpace :: "nat \<Rightarrow> bool" where
  "isWhiteSpace c =
     (c \<in> set [9, 10, 11, 12, 13, 32, 160, 5760, 8232, 8233, 8239, 8287, 12288, 65279]
      \<or> (8192 \<le> c \<and> c \<le> 8202))"

definition trim :: "jsstring \<Rightarrow> jsstring" where
  "trim s = rev (dropWhile isWhiteSpace (rev (dropWhile isWhiteSpace s)))"

text \<open>
  \<^verbatim>\<open>toLowerCase\<close> on the ASCII letters; other code units are kept. The code compares the
  result with \<^verbatim>\<open>"present"\<close> only, and no code point outside ASCII lower-cases to one of
  its letters, so the comparison is decided as in the browser.
\<close>

definition toLowerCase :: "jsstring \<Rightarrow> jsstring" where
  "toLowerCase s = map (\<lambda>c. if 65 \<le> c \<and> c \<le> 90 then c + 32 else c) s"

text \<open>\<^verbatim>\<open>x || null\<close> on a string that may be undefined: the empty string is falsy.\<close>

definition orNull :: "jsstring option \<Rightarrow> jsstring option" where
  "orNull x = (case x of None \<Rightarrow> None | Some s \<Rightarrow> if s = [] then None else Some s)"

subsection \<open>Experience and volunteering entries\<close>

text \<open>
  A node of the result list as the callback of \<^verbatim>\<open>$$eval\<close> sees it: for each selector
  the callback queries, the \<^verbatim>\<open>textContent\<close> of the element found, or nothing when no
  element matches (\<^verbatim>\<open>element?.textContent\<close>). For the company, the text is the one left
  after the callback removed the nested span.
\<close>

record experienceNode =
  x_title :: "jsstring option"
  x_employmentType :: "jsstring option"
  x_company :: "jsstring option"
  x_description :: "jsstring option"
  x_dateRange :: "jsstring option"
  x_location :: "jsstring option"

record RawExperience =
  re_title :: "jsstring option"
  re_company :: "jsstring option"
  re_employmentType :: "jsstring option"
  re_location :: "jsstring option"
  re_startDate :: "jsstring option"
  re_endDate :: "jsstring option"
  re_endDateIsPresent :: bool
  re_description :: "jsstring option"

record volunteeringNode =
  v_title :: "jsstring option"
  v_company :: "jsstring option"
  v_dateRange :: "jsstring option"
  v_description :: "jsstring option"

record RawVolunteering =
  rv_title :: "jsstring option"
  rv_company :: "jsstring option"
  rv_startDate :: "jsstring option"
  rv_endDate :: "jsstring option"
  rv_endDateIsPresent :: bool
  rv_description :: "jsstring option"

text \<open>The date-range computations, written the same way in both extractors.\<close>

definition dateRangeText :: "jsstring option \<Rightarrow> jsstring option" where
  "dateRangeText el = orNull el"

definition startDatePart :: "jsstring option \<Rightarrow> jsstring option" where
  "startDatePart el =
     orNull (case dateRangeText el of None \<Rightarrow> None | Some t \<Rightarrow> at (split enDash t) 0)"

definition startDate :: "jsstring option \<Rightarrow> jsstring option" where
  "startDate el = orNull (map_option trim (startDatePart el))"

definition endDatePart :: "jsstring option \<Rightarrow> jsstring option" where
  "endDatePart el =
     orNull (case dateRangeText el of None \<Rightarrow> None | Some t \<Rightarrow> at (split enDash t) 1)"

definition endDateIsPresent :: "jsstring option \<Rightarrow> bool" where
  "endDateIsPresent el =
     (case endDatePart el of
        None \<Rightarrow> False
      | Some p \<Rightarrow> toLowerCase (trim p) = js ''present'')"

definition endDate :: "jsstring option \<Rightarrow> jsstring" where
  "endDate el =
     (case endDatePart el of
        None \<Rightarrow> js ''Present''
      | Some p \<Rightarrow> if \<not> endDateIsPresent el then trim p else js ''Present'')"

definition rawExperience :: "experienceNode \<Rightarrow> RawExperience" where
  "rawExperience node =
     \<lparr> re_title = orNull (x_title node),
       re_company = orNull (x_company node),
       re_employmentType = orNull (x_employmentType node),
       re_location = orNull (x_location node),
       re_startDate = startDate (x_dateRange node),
       re_endDate = Some (endDate (x_dateRange node)),
       re_endDateIsPresent = endDateIsPresent (x_dateRange node),
       re_description = orNull (x_description node) \<rparr>"

definition rawVolunteering :: "volunteeringNode \<Rightarrow> RawVolunteering" where
  "rawVolunteering node =
     \<lparr> rv_title = orNull (v_title node),
       rv_company = orNull (v_company node),
       rv_startDate = startDate (v_dateRange node),
       rv_endDate = Some (endDate (v_dateRange node)),
       rv_endDateIsPresent = endDateIsPresent (v_dateRange node),
       rv_description = orNull (v_description node) \<rparr>"

subsection \<open>Skills\<close>

text \<open>An element found by \<^verbatim>\<open>querySelector\<close>; its \<^verbatim>\<open>textContent\<close> is typed string or null.\<close>

datatype element = Element (textContent: "jsstring option")

record skillNode =
  s_skillName :: "element option"
  s_endorsementCount :: "element option"

record Skill =
  skillName :: "jsstring option"
  endorsementCount :: "jsnumber option"

text \<open>
  The callback of \<^verbatim>\<open>nodes.map\<close> in \<^verbatim>\<open>getSkills\<close>. \<^verbatim>\<open>parseInt\<close> is the builtin of the
  language, taken as a parameter: it returns a number, possibly NaN.
\<close>

definition skillOfNode :: "(jsstring \<Rightarrow> jsnumber) \<Rightarrow> skillNode \<Rightarrow> Skill" where
  "skillOfNode parseInt node =
     \<lparr> skillName =
         (case s_skillName node of
            None \<Rightarrow> None
          | Some el \<Rightarrow> map_option trim (textContent el)),
       endorsementCount =
         Some (case s_endorsementCount node of
                 None \<Rightarrow> Num 0
               | Some el \<Rightarrow>
                   parseInt (case orNull (map_option trim (textContent el)) of
                               None \<Rightarrow> js ''0''
                             | Some t \<Rightarrow> t)) \<rparr>"

text \<open>
  The builtin \<^verbatim>\<open>parseInt(string)\<close>, called with no radix, on the code units of the
  string. Leading white space is skipped and one sign is read; after a prefix
  \<^verbatim>\<open>0x\<close> or \<^verbatim>\<open>0X\<close> the radix is 16, otherwise 10; the longest run of digits of the
  radix is the numeral, and none gives NaN. The integer of the numeral becomes a number:
  the nearest double, ties to even, infinite from \<open>2 ^ 1024\<close> on; a zero keeps the sign.
  (For more than 20 decimal digits the language lets an engine round the numeral first;
  here the integer is exact, as in the engine the scraper runs on.)
\<close>

definition digitOf :: "nat \<Rightarrow> nat option" where
  "digitOf c =
     (if 48 \<le> c \<and> c \<le> 57 then Some (c - 48)
      else if 97 \<le> c \<and> c \<le> 122 then Some (c - 87)
      else if 65 \<le> c \<and> c \<le> 90 then Some (c - 55)
      else None)"

definition isRadixDigit :: "nat \<Rightarrow> nat \<Rightarrow> bool" where
  "isRadixDigit R c = (case digitOf c of None \<Rightarrow> False | Some d \<Rightarrow> d < R)"

fun mathInt :: "nat \<Rightarrow> nat \<Rightarrow> jsstring \<Rightarrow> nat" where
  "mathInt R acc [] = acc"
| "mathInt R acc (c # cs) =
     (case digitOf c of
        None \<Rightarrow> acc
      | Some d \<Rightarrow> mathInt R (acc * R + d) cs)"

fun bitLength :: "nat \<Rightarrow> nat" where
  "bitLength n = (if n = 0 then 0 else Suc (bitLength (n div 2)))"

text \<open>The double nearest to a natural number; \<open>None\<close> stands for the infinite one.\<close>

definition toDouble :: "nat \<Rightarrow> nat option" where
  "toDouble n =
     (if n < 2 ^ 53 then Some n
      else
        (let e = bitLength n - 53;
             q = n div 2 ^ e;
             r = n mod 2 ^ e;
             half = 2 ^ (e - 1);
             q' = (if half < r \<or> (r = half \<and> odd q) then q + 1 else q)
         in if q' * 2 ^ e < 2 ^ 1024 then Some (q' * 2 ^ e) else None))"

definition numeralOf :: "jsstring \<Rightarrow> nat \<times> jsstring" where
  "numeralOf S =
     (case S of
        c # x # rest \<Rightarrow>
          if c = 48 \<and> (x = 120 \<or> x = 88) then (16, takeWhile (isRadixDigit 16) rest)
          else (10, takeWhile (isRadixDigit 10) S)
      | _ \<Rightarrow> (10, takeWhile (isRadixDigit 10) S))"

definition signed :: "bool \<Rightarrow> jsstring \<Rightarrow> jsnumber" where
  "signed negative S =
     (case numeralOf S of
        (R, Z) \<Rightarrow>
          if Z = [] then NaN
          else
            (case toDouble (mathInt R 0 Z) of
               None \<Rightarrow> if negative then NegInfinity else Infinity
             | Some v \<Rightarrow>
                 if negative then (if v = 0 then NegZero else Num (- int v))
                 else Num (int v)))"

definition jsParseInt :: "jsstring \<Rightarrow> jsnumber" where
  "jsParseInt inputString =
     (case dropWhile isWhiteSpace inputString of
        [] \<Rightarrow> NaN
      | c # cs \<Rightarrow>
          if c = 45 then signed True cs
          else if c = 43 then signed False cs
          else signed False (c # cs))"

section \<open>The browser engine and the scraper object\<close>

text \<open>
  The scraper drives an external browser through an automation engine. The model keeps
  the two fields of the scraper object (\<open>options\<close>, \<open>browser\<close>) together with the
  engine's side: which browser processes are up, how many were launched, the next page
  identifier, and the trace of the engine calls made so far, in order. A call is recorded
  whether it succeeds or fails.
\<close>

datatype waitUntil = DomContentLoaded | NetworkIdle2

datatype event =
    Launch nat jsval jsval                     \<comment> \<open>browser, \<^verbatim>\<open>headless\<close> and \<^verbatim>\<open>timeout\<close> passed\<close>
  | NewPage nat nat                            \<comment> \<open>browser, page\<close>
  | SetupPage nat jsval jsval                  \<comment> \<open>page, user agent, cookie value\<close>
  | Goto nat string waitUntil "jsval option"   \<comment> \<open>page, URL, \<^verbatim>\<open>waitUntil\<close>, \<^verbatim>\<open>timeout\<close> if passed\<close>
  | AutoScroll nat
  | Evaluate nat
  | PageClose nat
  | BrowserClose nat
  | TreeKill nat                               \<comment> \<open>pid, with SIGKILL\<close>

record state =
  options :: ScraperOptions
  browser :: "nat option"
  alive :: "nat list"
  launched :: nat
  nextPage :: nat
  trace :: "event list"

text \<open>
  How the engine and the document answer. Every answer is indexed by the number of
  engine calls made before it, so that the same call can be answered differently each
  time. A failure carries the engine's message. The lists of nodes are what \<^verbatim>\<open>$$eval\<close>
  hands to the callbacks; the profile and the education entries arrive already extracted,
  their extraction being left out. \<open>normExperience\<close> and \<open>normVolunteering\<close>
  stand for the mapping of a raw record to the returned one, which uses the utilities
  module (not among the sources). \<open>schedule\<close> is the order in which the engine
  answers calls that are under way at the same time (see the detail pages below).
\<close>

record ('p, 'v, 'x, 'e) env =
  launchFails :: "nat \<Rightarrow> string option"
  processPid :: "nat \<Rightarrow> nat option"
  newPageFails :: "nat \<Rightarrow> string option"
  setupPageFails :: "nat \<Rightarrow> string option"
  gotoResult :: "nat \<Rightarrow> string \<Rightarrow> string + string"
  autoScrollFails :: "nat \<Rightarrow> string option"
  pageCloseFails :: "nat \<Rightarrow> string option"
  browserCloseFails :: "nat \<Rightarrow> string option"
  treeKillFails :: "nat \<Rightarrow> bool"
  profileResult :: "nat \<Rightarrow> string + 'p"
  volunteeringNodes :: "nat \<Rightarrow> string + volunteeringNode list"
  experienceNodes :: "nat \<Rightarrow> string + experienceNode list"
  educationResult :: "nat \<Rightarrow> string + 'e list"
  skillNodes :: "nat \<Rightarrow> string + skillNode list"
  schedule :: "nat \<Rightarrow> nat \<Rightarrow> nat"
  normExperience :: "RawExperience \<Rightarrow> 'x"
  normVolunteering :: "RawVolunteering \<Rightarrow> 'v"
  parseInt :: "jsstring \<Rightarrow> jsnumber"

record ('p, 'v, 'x, 'e) Result =
  profile :: 'p
  experiences :: "'x list"
  education :: "'e list"
  volunteering :: "'v list"
  skills :: "Skill list"

subsection \<open>Asynchronous code as state passing\<close>

text \<open>
  An \<^verbatim>\<open>async\<close> function takes the state and returns the new one with either the
  error it threw or its value. \<open>andThen\<close> is \<^verbatim>\<open>await\<close> followed by the rest of the
  body; \<open>tryCatch\<close> is \<^verbatim>\<open>try { ... } catch (err) { ... }\<close>.
\<close>

type_synonym 'a action = "state \<Rightarrow> (error + 'a) \<times> state"

definition ok :: "'a \<Rightarrow> 'a action" where
  "ok x = (\<lambda>s. (Inr x, s))"

definition throw :: "error \<Rightarrow> 'a action" where
  "throw e = (\<lambda>s. (Inl e, s))"

definition gets :: "(state \<Rightarrow> 'a) \<Rightarrow> 'a action" where
  "gets f = (\<lambda>s. (Inr (f s), s))"

definition andThen :: "'a action \<Rightarrow> ('a \<Rightarrow> 'b action) \<Rightarrow> 'b action" where
  "andThen m f = (\<lambda>s. case m s of (Inl e, s') \<Rightarrow> (Inl e, s') | (Inr x, s') \<Rightarrow> f x s')"

definition tryCatch :: "'a action \<Rightarrow> (error \<Rightarrow> 'a action) \<Rightarrow> 'a action" where
  "tryCatch m h = (\<lambda>s. case m s of (Inl e, s') \<Rightarrow> h e s' | (Inr x, s') \<Rightarrow> (Inr x, s'))"

subsection \<open>Engine calls\<close>

definition now :: "state \<Rightarrow> nat" where
  "now s = length (trace s)"

definition emit :: "event \<Rightarrow> state \<Rightarrow> state" where
  "emit ev s = s\<lparr>trace := trace s @ [ev]\<rparr>"

definition answer :: "string option \<Rightarrow> error + unit" where
  "answer r = (case r of None \<Rightarrow> Inr () | Some m \<Rightarrow> Inl (EngineError m))"

text \<open>\<^verbatim>\<open>puppeteer.launch\<close>: a new browser process, or an error.\<close>

definition puppeteerLaunch :: "('p, 'v, 'x, 'e) env \<Rightarrow> nat action" where
  "puppeteerLaunch env s =
     (let b = launched s;
          s' = emit (Launch b (headless (options s)) (timeout (options s))) s
      in case launchFails env (now s) of
           Some m \<Rightarrow> (Inl (EngineError m), s')
         | None \<Rightarrow> (Inr b, s'\<lparr>alive := b # alive s, launched := Suc b\<rparr>))"

text \<open>
  \<^verbatim>\<open>browser.newPage()\<close>. The engine refuses it once the browser has been closed: its
  connection is gone.
\<close>

definition newPage :: "('p, 'v, 'x, 'e) env \<Rightarrow> nat \<Rightarrow> nat action" where
  "newPage env b s =
     (let p = nextPage s; s' = emit (NewPage b p) s
      in if b \<notin> set (alive s) then
           (Inl (EngineError ''Protocol error (Target.createTarget): Target closed.''), s')
         else case newPageFails env (now s) of
                Some m \<Rightarrow> (Inl (EngineError m), s')
              | None \<Rightarrow> (Inr p, s'\<lparr>nextPage := Suc p\<rparr>))"

text \<open>
  The configuration of a new page, in one step: the debugging session, the bypass of the
  content-security policy, the lifecycle state, the request interception with the handler
  \<open>requestHandler\<close>, the user agent, the viewport and the session cookie.
\<close>

definition setupPage :: "('p, 'v, 'x, 'e) env \<Rightarrow> nat \<Rightarrow> unit action" where
  "setupPage env p s =
     (answer (setupPageFails env (now s)),
      emit (SetupPage p (userAgent (options s)) (sessionCookieValue (options s))) s)"

text \<open>\<^verbatim>\<open>page.goto(url, {waitUntil, timeout})\<close> followed by \<^verbatim>\<open>page.url()\<close>: the final URL.\<close>

definition goto :: "('p, 'v, 'x, 'e) env \<Rightarrow> nat \<Rightarrow> string \<Rightarrow> waitUntil \<Rightarrow> jsval option \<Rightarrow> string action" where
  "goto env p u w t s =
     (case gotoResult env (now s) u of
        Inl m \<Rightarrow> (Inl (EngineError m), emit (Goto p u w t) s)
      | Inr final \<Rightarrow> (Inr final, emit (Goto p u w t) s))"

definition autoScroll :: "('p, 'v, 'x, 'e) env \<Rightarrow> nat \<Rightarrow> unit action" where
  "autoScroll env p s = (answer (autoScrollFails env (now s)), emit (AutoScroll p) s)"

text \<open>\<^verbatim>\<open>page.evaluate\<close> and \<^verbatim>\<open>page.$$eval\<close>: what the document yields, or an error.\<close>

definition evaluate :: "(nat \<Rightarrow> string + 'a) \<Rightarrow> nat \<Rightarrow> 'a action" where
  "evaluate yield p s =
     (case yield (now s) of
        Inl m \<Rightarrow> (Inl (EngineError m), emit (Evaluate p) s)
      | Inr x \<Rightarrow> (Inr x, emit (Evaluate p) s))"

definition pageClose :: "('p, 'v, 'x, 'e) env \<Rightarrow> nat \<Rightarrow> unit action" where
  "pageClose env p s = (answer (pageCloseFails env (now s)), emit (PageClose p) s)"

text \<open>\<^verbatim>\<open>browser.close()\<close>: when it succeeds the browser is no longer up.\<close>

definition browserClose :: "('p, 'v, 'x, 'e) env \<Rightarrow> nat \<Rightarrow> unit action" where
  "browserClose env b s =
     (case browserCloseFails env (now s) of
        Some m \<Rightarrow> (Inl (EngineError m), emit (BrowserClose b) s)
      | None \<Rightarrow> (Inr (), (emit (BrowserClose b) s)\<lparr>alive := removeAll b (alive s)\<rparr>))"

text \<open>
  \<^verbatim>\<open>treeKill(pid, "SIGKILL", callback)\<close>: the call returns at once; the callback runs
  later, when the processes have been listed and signalled. The result here is what the
  callback will be given.
\<close>

definition treeKill :: "('p, 'v, 'x, 'e) env \<Rightarrow> nat \<Rightarrow> state \<Rightarrow> bool \<times> state" where
  "treeKill env pid s = (treeKillFails env (now s), emit (TreeKill pid) s)"

subsection \<open>close\<close>

text \<open>
  \<open>close\<close> returns a promise built by hand. The executor calls \<^verbatim>\<open>resolve\<close> and
  \<^verbatim>\<open>reject\<close> at several places; a promise is settled by the first of these calls and
  ignores the later ones. The calls, in the order the source makes them: the rejection
  when closing the page fails; the rejection when closing the browser fails; the
  \<^verbatim>\<open>return resolve()\<close> that ends the executor; and, after the executor has returned,
  the one made by the callback of \<^verbatim>\<open>treeKill\<close>.
\<close>

datatype settle = Resolve | Reject error

definition settled :: "settle list \<Rightarrow> error + unit" where
  "settled calls = (case calls of Reject e # _ \<Rightarrow> Inl e | _ \<Rightarrow> Inr ())"

definition closePageStep :: "('p, 'v, 'x, 'e) env \<Rightarrow> nat option \<Rightarrow> state \<Rightarrow> settle list \<times> state" where
  "closePageStep env page s =
     (case page of
        None \<Rightarrow> ([], s)
      | Some p \<Rightarrow>
          (case pageClose env p s of
             (Inl e, s') \<Rightarrow> ([Reject e], s')
           | (Inr _, s') \<Rightarrow> ([], s')))"

text \<open>
  The second step gives the calls made inside the executor and the call the callback of
  \<^verbatim>\<open>treeKill\<close> makes later.
\<close>

definition closeBrowserStep ::
  "('p, 'v, 'x, 'e) env \<Rightarrow> state \<Rightarrow> (settle list \<times> settle list) \<times> state" where
  "closeBrowserStep env s =
     (case browser s of
        None \<Rightarrow> (([], []), s)
      | Some b \<Rightarrow>
          (case browserClose env b s of
             (Inl e, s') \<Rightarrow> (([Reject e], []), s')
           | (Inr _, s') \<Rightarrow>
               (case processPid env b of
                  None \<Rightarrow> (([], []), s')
                | Some pid \<Rightarrow>
                    if pid = 0 then (([], []), s')
                    else
                      (case treeKill env pid s' of
                         (True, s'') \<Rightarrow> (([], [Reject (KillFailed pid)]), s'')
                       | (False, s'') \<Rightarrow> (([], [Resolve]), s'')))))"

definition close :: "('p, 'v, 'x, 'e) env \<Rightarrow> nat option \<Rightarrow> unit action" where
  "close env page s =
     (let (calls1, s1) = closePageStep env page s;
          ((calls2, later), s2) = closeBrowserStep env s1
      in (settled (calls1 @ calls2 @ [Resolve] @ later), s2))"

subsection \<open>createPage, checkIfLoggedIn, setup\<close>

definition createPage :: "('p, 'v, 'x, 'e) env \<Rightarrow> nat action" where
  "createPage env s =
     (case browser s of
        None \<Rightarrow> (Inl (Error ''Browser not set.''), s)
      | Some b \<Rightarrow>
          tryCatch
            (andThen (newPage env b) (\<lambda>page.
             andThen (setupPage env page) (\<lambda>_.
             ok page)))
            (\<lambda>err. andThen (close env None) (\<lambda>_. throw err))
            s)"

definition loginUrl :: string where
  "loginUrl = ''https://www.linkedin.com/login''"

definition startsWith :: "string \<Rightarrow> string \<Rightarrow> bool" where
  "startsWith s t = (take (length t) s = t)"

definition endsWith :: "string \<Rightarrow> string \<Rightarrow> bool" where
  "endsWith s t = (length t \<le> length s \<and> drop (length s - length t) s = t)"

fun includesStr :: "string \<Rightarrow> string \<Rightarrow> bool" where
  "includesStr [] t = (t = [])"
| "includesStr (c # cs) t = (startsWith (c # cs) t \<or> includesStr cs t)"

definition notLoggedInMessage :: string where
  "notLoggedInMessage =
     ''Bad news, we are not logged in! Your session seems to be expired. Use your browser to login again with your LinkedIn credentials and extract the ''
     @ quoted ''li_at'' @ '' cookie value for the '' @ quoted ''sessionCookieValue'' @ '' option.''"

definition checkIfLoggedIn :: "('p, 'v, 'x, 'e) env \<Rightarrow> unit action" where
  "checkIfLoggedIn env =
     andThen (createPage env) (\<lambda>page.
     andThen (gets options) (\<lambda>opts.
     andThen (goto env page loginUrl DomContentLoaded (Some (timeout opts))) (\<lambda>final.
     andThen (pageClose env page) (\<lambda>_.
     if \<not> endsWith final ''/login'' then ok ()
     else throw (SessionExpired notLoggedInMessage)))))"

definition setBrowser :: "nat \<Rightarrow> unit action" where
  "setBrowser b = (\<lambda>s. (Inr (), s\<lparr>browser := Some b\<rparr>))"

definition setupScraper :: "('p, 'v, 'x, 'e) env \<Rightarrow> unit action" where
  "setupScraper env =
     tryCatch
       (andThen (puppeteerLaunch env) (\<lambda>b.
        andThen (setBrowser b) (\<lambda>_.
        checkIfLoggedIn env)))
       (\<lambda>err. andThen (close env None) (\<lambda>_. throw err))"

subsection \<open>The extractors\<close>

text \<open>
  Each extractor as an action: the function body from its first line to its last, with
  nothing happening in between. \<open>getProfile\<close> and \<open>getVolunteering\<close> are awaited
  one by one and run so. The other three are started together by \<open>run\<close>; there they
  run as tasks (next subsection), and a task that is alone is the action given here.
\<close>

definition getProfile :: "('p, 'v, 'x, 'e) env \<Rightarrow> nat \<Rightarrow> 'p action" where
  "getProfile env page = evaluate (profileResult env) page"

definition getVolunteering :: "('p, 'v, 'x, 'e) env \<Rightarrow> nat \<Rightarrow> 'v list action" where
  "getVolunteering env page =
     andThen (evaluate (volunteeringNodes env) page) (\<lambda>nodes.
     ok (map (\<lambda>node. normVolunteering env (rawVolunteering node)) nodes))"

definition getExperiences :: "('p, 'v, 'x, 'e) env \<Rightarrow> string \<Rightarrow> 'x list action" where
  "getExperiences env profileUrl =
     andThen (createPage env) (\<lambda>page.
     andThen (goto env page (profileUrl @ ''/details/experience'') NetworkIdle2 None) (\<lambda>_.
     andThen (evaluate (experienceNodes env) page) (\<lambda>nodes.
     andThen (pageClose env page) (\<lambda>_.
     ok (map (\<lambda>node. normExperience env (rawExperience node)) nodes)))))"

definition getEducation :: "('p, 'v, 'x, 'e) env \<Rightarrow> string \<Rightarrow> 'e list action" where
  "getEducation env profileUrl =
     andThen (createPage env) (\<lambda>page.
     andThen (goto env page (profileUrl @ ''/details/education'') NetworkIdle2 None) (\<lambda>_.
     andThen (evaluate (educationResult env) page) (\<lambda>educations.
     andThen (pageClose env page) (\<lambda>_.
     ok educations))))"

definition getSkills :: "('p, 'v, 'x, 'e) env \<Rightarrow> string \<Rightarrow> Skill list action" where
  "getSkills env profileUrl =
     andThen (createPage env) (\<lambda>page.
     andThen (goto env page (profileUrl @ ''/details/skills'') NetworkIdle2 None) (\<lambda>_.
     andThen (evaluate (skillNodes env) page) (\<lambda>nodes.
     andThen (pageClose env page) (\<lambda>_.
     ok (map (skillOfNode (parseInt env)) nodes)))))"

subsection \<open>The detail pages: three tasks under Promise.all\<close>

text \<open>
  \<open>run\<close> calls the three extractors one after the other without awaiting any: each
  runs up to its first \<^verbatim>\<open>await\<close>, the call of \<^verbatim>\<open>browser.newPage()\<close> inside
  \<open>createPage\<close>, and the three go on from there as their engine calls are answered, in
  an order the program does not decide. A task is an extractor stopped at an \<^verbatim>\<open>await\<close>:
  the state names the call it waits for and holds the answer it will be given (the engine
  fixed the answer when the call was made). The states follow \<open>getExperiences\<close>,
  \<open>getEducation\<close> and \<open>getSkills\<close> line by line, with \<open>createPage\<close> and its
  \<^verbatim>\<open>catch\<close> block in place.
\<close>

datatype ('n, 'd) task =
    AwaitNewPage "error + nat"               \<comment> \<open>in \<open>createPage\<close>: \<^verbatim>\<open>await this.browser.newPage()\<close>\<close>
  | AwaitSetupPage nat "error + unit"        \<comment> \<open>in \<open>createPage\<close>: the configuration of the page\<close>
  | AwaitShutdown error nat "error + unit"   \<comment> \<open>in the \<^verbatim>\<open>catch\<close> of \<open>createPage\<close>, inside \<open>close\<close>:
                                                 \<^verbatim>\<open>await this.browser.close()\<close>; the error caught, the browser\<close>
  | AwaitGoto nat "error + string"           \<comment> \<open>\<^verbatim>\<open>await page.goto(...)\<close>\<close>
  | AwaitEval nat "error + 'n"               \<comment> \<open>\<^verbatim>\<open>await page.$$eval(...)\<close>\<close>
  | AwaitPageClose 'n "error + unit"         \<comment> \<open>\<^verbatim>\<open>await page.close()\<close>\<close>
  | Settled "error + 'd"                     \<comment> \<open>the extractor has thrown or returned\<close>

text \<open>
  What \<open>close\<close> does after \<^verbatim>\<open>await this.browser.close()\<close>, given the browser and the
  answer: the calls of \<^verbatim>\<open>reject\<close> and \<^verbatim>\<open>resolve\<close> inside the executor and the one the
  callback of \<^verbatim>\<open>treeKill\<close> makes later, as in \<open>closeBrowserStep\<close>.
\<close>

definition afterBrowserClose ::
  "('p, 'v, 'x, 'e) env \<Rightarrow> nat \<Rightarrow> error + unit \<Rightarrow> state \<Rightarrow> (settle list \<times> settle list) \<times> state" where
  "afterBrowserClose env b r s =
     (case r of
        Inl e \<Rightarrow> (([Reject e], []), s)
      | Inr _ \<Rightarrow>
          (case processPid env b of
             None \<Rightarrow> (([], []), s)
           | Some pid \<Rightarrow>
               if pid = 0 then (([], []), s)
               else
                 (case treeKill env pid s of
                    (True, s') \<Rightarrow> (([], [Reject (KillFailed pid)]), s')
                  | (False, s') \<Rightarrow> (([], [Resolve]), s'))))"

text \<open>
  \<^verbatim>\<open>await this.close(); throw err\<close>, once the browser has answered: the error of
  \<open>close\<close> if its promise is rejected, the error caught otherwise.
\<close>

definition closeThenThrow ::
  "('p, 'v, 'x, 'e) env \<Rightarrow> error \<Rightarrow> nat \<Rightarrow> error + unit \<Rightarrow> state \<Rightarrow> error \<times> state" where
  "closeThenThrow env err b r s =
     (case afterBrowserClose env b r s of
        ((calls, later), s') \<Rightarrow>
          (case settled (calls @ [Resolve] @ later) of
             Inl closeError \<Rightarrow> (closeError, s')
           | Inr _ \<Rightarrow> (err, s')))"

text \<open>
  The start of an extractor, up to its first \<^verbatim>\<open>await\<close>: \<open>createPage\<close> throws when no
  browser is set, and asks for a page otherwise.
\<close>

definition startTask :: "('p, 'v, 'x, 'e) env \<Rightarrow> state \<Rightarrow> ('n, 'd) task \<times> state" where
  "startTask env s =
     (case browser s of
        None \<Rightarrow> (Settled (Inl (Error ''Browser not set.'')), s)
      | Some b \<Rightarrow> (case newPage env b s of (r, s') \<Rightarrow> (AwaitNewPage r, s')))"

text \<open>
  The \<^verbatim>\<open>catch\<close> block of \<open>createPage\<close>, up to the \<^verbatim>\<open>await\<close> inside \<open>close\<close>. (Inside
  \<open>createPage\<close> a browser is set; with none, \<open>close\<close> has nothing to wait for.)
\<close>

definition catchInCreatePage :: "('p, 'v, 'x, 'e) env \<Rightarrow> error \<Rightarrow> state \<Rightarrow> ('n, 'd) task \<times> state" where
  "catchInCreatePage env err s =
     (case browser s of
        None \<Rightarrow> (Settled (Inl err), s)
      | Some b \<Rightarrow> (case browserClose env b s of (r, s') \<Rightarrow> (AwaitShutdown err b r, s')))"

text \<open>
  A task is given the answer it waits for and runs to its next \<^verbatim>\<open>await\<close>, or to its end.
  The extractor navigates to \<open>u\<close> with \<^verbatim>\<open>waitUntil: "networkidle2"\<close> and nothing else,
  reads the nodes that \<open>yield\<close> gives, closes its page and returns \<open>finish\<close> of the
  nodes.
\<close>

definition resume ::
  "('p, 'v, 'x, 'e) env \<Rightarrow> string \<Rightarrow> (nat \<Rightarrow> string + 'n) \<Rightarrow> ('n \<Rightarrow> 'd) \<Rightarrow>
     ('n, 'd) task \<Rightarrow> state \<Rightarrow> ('n, 'd) task \<times> state" where
  "resume env u yield finish t s =
     (case t of
        AwaitNewPage (Inl err) \<Rightarrow> catchInCreatePage env err s
      | AwaitNewPage (Inr page) \<Rightarrow>
          (case setupPage env page s of (r, s') \<Rightarrow> (AwaitSetupPage page r, s'))
      | AwaitSetupPage page (Inl err) \<Rightarrow> catchInCreatePage env err s
      | AwaitSetupPage page (Inr _) \<Rightarrow>
          (case goto env page u NetworkIdle2 None s of (r, s') \<Rightarrow> (AwaitGoto page r, s'))
      | AwaitShutdown err b r \<Rightarrow>
          (case closeThenThrow env err b r s of (thrown, s') \<Rightarrow> (Settled (Inl thrown), s'))
      | AwaitGoto page (Inl err) \<Rightarrow> (Settled (Inl err), s)
      | AwaitGoto page (Inr _) \<Rightarrow>
          (case evaluate yield page s of (r, s') \<Rightarrow> (AwaitEval page r, s'))
      | AwaitEval page (Inl err) \<Rightarrow> (Settled (Inl err), s)
      | AwaitEval page (Inr nodes) \<Rightarrow>
          (case pageClose env page s of (r, s') \<Rightarrow> (AwaitPageClose nodes r, s'))
      | AwaitPageClose nodes (Inl err) \<Rightarrow> (Settled (Inl err), s)
      | AwaitPageClose nodes (Inr _) \<Rightarrow> (Settled (Inr (finish nodes)), s)
      | Settled r \<Rightarrow> (Settled r, s))"

text \<open>The three tasks of a run, in the order of the arguments of \<^verbatim>\<open>Promise.all\<close>.\<close>

record ('x, 'e) tasks =
  experiencesTask :: "(experienceNode list, 'x list) task"
  educationTask :: "('e list, 'e list) task"
  skillsTask :: "(skillNode list, Skill list) task"

definition startTasks :: "('p, 'v, 'x, 'e) env \<Rightarrow> state \<Rightarrow> ('x, 'e) tasks \<times> state" where
  "startTasks env s =
     (case startTask env s of (t0, s0) \<Rightarrow>
      case startTask env s0 of (t1, s1) \<Rightarrow>
      case startTask env s1 of (t2, s2) \<Rightarrow>
        (\<lparr> experiencesTask = t0, educationTask = t1, skillsTask = t2 \<rparr>, s2))"

definition resumeTask ::
  "('p, 'v, 'x, 'e) env \<Rightarrow> string \<Rightarrow> nat \<Rightarrow> ('x, 'e) tasks \<Rightarrow> state \<Rightarrow> ('x, 'e) tasks \<times> state" where
  "resumeTask env profileUrl i ts s =
     (if i = 0 then
        (case resume env (profileUrl @ ''/details/experience'') (experienceNodes env)
                (map (\<lambda>node. normExperience env (rawExperience node))) (experiencesTask ts) s of
           (t, s') \<Rightarrow> (ts \<lparr> experiencesTask := t \<rparr>, s'))
      else if i = 1 then
        (case resume env (profileUrl @ ''/details/education'') (educationResult env)
                (\<lambda>educations. educations) (educationTask ts) s of
           (t, s') \<Rightarrow> (ts \<lparr> educationTask := t \<rparr>, s'))
      else
        (case resume env (profileUrl @ ''/details/skills'') (skillNodes env)
                (map (skillOfNode (parseInt env))) (skillsTask ts) s of
           (t, s') \<Rightarrow> (ts \<lparr> skillsTask := t \<rparr>, s')))"

fun pending :: "('n, 'd) task \<Rightarrow> bool" where
  "pending (Settled r) = False"
| "pending t = True"

fun rejection :: "('n, 'd) task \<Rightarrow> error option" where
  "rejection (Settled (Inl err)) = Some err"
| "rejection t = None"

fun fulfilment :: "('n, 'd) task \<Rightarrow> 'd option" where
  "fulfilment (Settled (Inr d)) = Some d"
| "fulfilment t = None"

text \<open>
  \<^verbatim>\<open>Promise.all\<close> is rejected as soon as one of the promises is, with its reason, and
  fulfilled when all three are, with the values in the order of the arguments.
\<close>

definition rejected :: "('x, 'e) tasks \<Rightarrow> error option" where
  "rejected ts =
     (case rejection (experiencesTask ts) of
        Some err \<Rightarrow> Some err
      | None \<Rightarrow>
          (case rejection (educationTask ts) of
             Some err \<Rightarrow> Some err
           | None \<Rightarrow> rejection (skillsTask ts)))"

definition fulfilled :: "('x, 'e) tasks \<Rightarrow> ('x list \<times> 'e list \<times> Skill list) option" where
  "fulfilled ts =
     (case (fulfilment (experiencesTask ts), fulfilment (educationTask ts),
            fulfilment (skillsTask ts)) of
        (Some exps, Some edus, Some skls) \<Rightarrow> Some (exps, edus, skls)
      | _ \<Rightarrow> None)"

text \<open>
  Whose call is answered next is the environment's choice (\<open>schedule\<close>, by the number of
  engine calls made when the tasks started and the number of answers given since): task
  0, 1 or 2; when the task chosen is not waiting, the first one that is.
\<close>

definition isPending :: "('x, 'e) tasks \<Rightarrow> nat \<Rightarrow> bool" where
  "isPending ts i =
     (if i = 0 then pending (experiencesTask ts)
      else if i = 1 then pending (educationTask ts)
      else pending (skillsTask ts))"

definition chosen :: "nat \<Rightarrow> ('x, 'e) tasks \<Rightarrow> nat" where
  "chosen c ts =
     (if isPending ts (c mod 3) then c mod 3
      else if isPending ts 0 then 0
      else if isPending ts 1 then 1
      else 2)"

text \<open>The \<^verbatim>\<open>await\<close>s still ahead of a task, at most.\<close>

fun rank :: "('n, 'd) task \<Rightarrow> nat" where
  "rank (AwaitNewPage r) = 5"
| "rank (AwaitSetupPage page r) = 4"
| "rank (AwaitGoto page r) = 3"
| "rank (AwaitEval page r) = 2"
| "rank (AwaitPageClose nodes r) = 1"
| "rank (AwaitShutdown err b r) = 1"
| "rank (Settled r) = 0"

definition ranks :: "('x, 'e) tasks \<Rightarrow> nat" where
  "ranks ts = rank (experiencesTask ts) + rank (educationTask ts) + rank (skillsTask ts)"

text \<open>
  The wait of \<^verbatim>\<open>Promise.all\<close>: until it is rejected or fulfilled, one task after the
  other is given its answer, as the environment chooses. The result comes with the tasks
  as they stand and the number of answers given.
\<close>

function awaitAll ::
  "('p, 'v, 'x, 'e) env \<Rightarrow> string \<Rightarrow> nat \<Rightarrow> nat \<Rightarrow> ('x, 'e) tasks \<Rightarrow> state \<Rightarrow>
     ((error + 'x list \<times> 'e list \<times> Skill list) \<times> ('x, 'e) tasks \<times> nat) \<times> state" where
  "awaitAll env profileUrl t0 k ts s =
     (case rejected ts of
        Some err \<Rightarrow> ((Inl err, ts, k), s)
      | None \<Rightarrow>
          (case fulfilled ts of
             Some results \<Rightarrow> ((Inr results, ts, k), s)
           | None \<Rightarrow>
               (case resumeTask env profileUrl (chosen (schedule env t0 k) ts) ts s of
                  (ts', s') \<Rightarrow> awaitAll env profileUrl t0 (Suc k) ts' s')))"
  by pat_completeness auto
termination
proof (relation "measure (\<lambda>(env, profileUrl, t0, k, ts, s). ranks ts)")
  show "wf (measure (\<lambda>(env :: ('p, 'v, 'x, 'e) env, profileUrl :: string, t0 :: nat, k :: nat,
                       ts :: ('x, 'e) tasks, s :: state). ranks ts))"
    by simp
next
  fix env :: "('p, 'v, 'x, 'e) env" and profileUrl :: string and t0 k :: nat
    and ts ts' :: "('x, 'e) tasks" and s s' :: state and x
  assume none: "rejected ts = None" "fulfilled ts = None"
    and step: "(ts', s') = resumeTask env profileUrl (chosen (schedule env t0 k) ts) ts s"
    and "x = resumeTask env profileUrl (chosen (schedule env t0 k) ts) ts s"
  have down: "ranks (fst (resumeTask env profileUrl i ts s)) < ranks ts" if p: "isPending ts i"
    for i
  proof -
    consider "i = 0" | "i = 1" | "i \<noteq> 0 \<and> i \<noteq> 1"
      by blast
    then show ?thesis
    proof cases
      case 1
      with p show ?thesis
        by (cases "experiencesTask ts" rule: rank.cases)
           (simp_all add: resumeTask_def isPending_def ranks_def resume_def catchInCreatePage_def
              split_beta split: sum.splits option.splits)
    next
      case 2
      with p show ?thesis
        by (cases "educationTask ts" rule: rank.cases)
           (simp_all add: resumeTask_def isPending_def ranks_def resume_def catchInCreatePage_def
              split_beta split: sum.splits option.splits)
    next
      case 3
      with p show ?thesis
        by (cases "skillsTask ts" rule: rank.cases)
           (simp_all add: resumeTask_def isPending_def ranks_def resume_def catchInCreatePage_def
              split_beta split: sum.splits option.splits)
    qed
  qed
  have some: "isPending ts 0 \<or> isPending ts 1 \<or> isPending ts 2"
    using none
    by (cases "experiencesTask ts" rule: rejection.cases;
        cases "educationTask ts" rule: rejection.cases;
        cases "skillsTask ts" rule: rejection.cases)
       (simp_all add: isPending_def rejected_def fulfilled_def)
  then have "isPending ts (chosen (schedule env t0 k) ts)"
    by (auto simp: chosen_def)
  with step down[of "chosen (schedule env t0 k) ts"]
  have "ranks ts' < ranks ts"
    by (metis fst_conv)
  then show "((env, profileUrl, t0, Suc k, ts', s'), (env, profileUrl, t0, k, ts, s))
      \<in> measure (\<lambda>(env, profileUrl, t0, k, ts, s). ranks ts)"
    by simp
qed

declare awaitAll.simps [simp del]

text \<open>
  \<^verbatim>\<open>Promise.all([getExperiences(...), getEducation(...), getSkills(...)])\<close>, awaited: the
  three tasks are started, then waited for.
\<close>

definition detailPages ::
  "('p, 'v, 'x, 'e) env \<Rightarrow> string \<Rightarrow> state \<Rightarrow>
     ((error + 'x list \<times> 'e list \<times> Skill list) \<times> ('x, 'e) tasks \<times> nat) \<times> state" where
  "detailPages env profileUrl s =
     (case startTasks env s of (ts, s') \<Rightarrow> awaitAll env profileUrl (now s) 0 ts s')"

subsection \<open>run\<close>

text \<open>The part of \<open>run\<close> on the primary page, up to the volunteering entries.\<close>

definition primaryPage :: "('p, 'v, 'x, 'e) env \<Rightarrow> string \<Rightarrow> (nat \<times> 'p \<times> 'v list) action" where
  "primaryPage env profileUrl =
     andThen (createPage env) (\<lambda>page.
     andThen (gets options) (\<lambda>opts.
     andThen (goto env page profileUrl DomContentLoaded (Some (timeout opts))) (\<lambda>_.
     andThen (autoScroll env page) (\<lambda>_.
     andThen (getProfile env page) (\<lambda>profile.
     andThen (getVolunteering env page) (\<lambda>volunteering.
     ok (page, profile, volunteering)))))))"

text \<open>The end of \<open>run\<close>: what becomes of the session, by \<open>keepAlive\<close>.\<close>

definition dispose :: "('p, 'v, 'x, 'e) env \<Rightarrow> nat \<Rightarrow> unit action" where
  "dispose env page =
     andThen (gets options) (\<lambda>opts.
     if \<not> truthy (keepAlive opts) then close env (Some page)
     else pageClose env page)"

text \<open>
  The \<^verbatim>\<open>try\<close> block of \<open>run\<close>. When it throws out of the wait for the detail pages,
  the tasks that have not settled are still there: the error comes with the tasks, the
  time they started and the number of answers given. Elsewhere no task is under way.
\<close>

type_synonym ('x, 'e) waiting = "('x, 'e) tasks \<times> nat \<times> nat"

definition runBody ::
  "('p, 'v, 'x, 'e) env \<Rightarrow> string \<Rightarrow> state \<Rightarrow>
     ((error + ('p, 'v, 'x, 'e) Result) \<times> ('x, 'e) waiting option) \<times> state" where
  "runBody env profileUrl s =
     (case primaryPage env profileUrl s of
        (Inl err, s1) \<Rightarrow> ((Inl err, None), s1)
      | (Inr (page, prof, vols), s1) \<Rightarrow>
          (case detailPages env profileUrl s1 of
             ((Inl err, ts, k), s2) \<Rightarrow> ((Inl err, Some (ts, now s1, k)), s2)
           | ((Inr (exps, edus, skls), ts, k), s2) \<Rightarrow>
               (case dispose env page s2 of
                  (Inl err, s3) \<Rightarrow> ((Inl err, None), s3)
                | (Inr _, s3) \<Rightarrow>
                    ((Inr \<lparr> profile = prof, experiences = exps, education = edus,
                            volunteering = vols, skills = skls \<rparr>, None), s3))))"

text \<open>
  The \<^verbatim>\<open>catch\<close> block of \<open>run\<close>, \<^verbatim>\<open>await this.close(); throw err\<close>, entered out of the
  wait for the detail pages. While \<open>close\<close> waits for the browser to close, the tasks
  that have not settled go on: the environment chooses between them (0, 1, 2) and the
  answer to \<open>close\<close> (3, or a task that is not waiting). When \<open>run\<close> has thrown, the
  tasks left are on their own; what they do later is no part of the run.
\<close>

function awaitClose ::
  "('p, 'v, 'x, 'e) env \<Rightarrow> string \<Rightarrow> nat \<Rightarrow> nat \<Rightarrow> ('x, 'e) tasks \<Rightarrow> error \<Rightarrow> nat \<Rightarrow>
     error + unit \<Rightarrow> state \<Rightarrow> error \<times> state" where
  "awaitClose env profileUrl t0 k ts err b r s =
     (if schedule env t0 k mod 4 \<noteq> 3 \<and> isPending ts (schedule env t0 k mod 4) then
        (case resumeTask env profileUrl (schedule env t0 k mod 4) ts s of
           (ts', s') \<Rightarrow> awaitClose env profileUrl t0 (Suc k) ts' err b r s')
      else closeThenThrow env err b r s)"
  by pat_completeness auto
termination
proof (relation "measure (\<lambda>(env, profileUrl, t0, k, ts, err, b, r, s). ranks ts)")
  show "wf (measure (\<lambda>(env :: ('p, 'v, 'x, 'e) env, profileUrl :: string, t0 :: nat, k :: nat,
                       ts :: ('x, 'e) tasks, err :: error, b :: nat, r :: error + unit,
                       s :: state). ranks ts))"
    by simp
next
  fix env :: "('p, 'v, 'x, 'e) env" and profileUrl :: string and t0 k b :: nat
    and ts ts' :: "('x, 'e) tasks" and s s' :: state and err :: error and r :: "error + unit"
    and x
  assume c: "schedule env t0 k mod 4 \<noteq> 3 \<and> isPending ts (schedule env t0 k mod 4)"
    and step: "(ts', s') = resumeTask env profileUrl (schedule env t0 k mod 4) ts s"
    and "x = resumeTask env profileUrl (schedule env t0 k mod 4) ts s"
  have down: "ranks (fst (resumeTask env profileUrl i ts s)) < ranks ts" if p: "isPending ts i"
    for i
  proof -
    consider "i = 0" | "i = 1" | "i \<noteq> 0 \<and> i \<noteq> 1"
      by blast
    then show ?thesis
    proof cases
      case 1
      with p show ?thesis
        by (cases "experiencesTask ts" rule: rank.cases)
           (simp_all add: resumeTask_def isPending_def ranks_def resume_def catchInCreatePage_def
              split_beta split: sum.splits option.splits)
    next
      case 2
      with p show ?thesis
        by (cases "educationTask ts" rule: rank.cases)
           (simp_all add: resumeTask_def isPending_def ranks_def resume_def catchInCreatePage_def
              split_beta split: sum.splits option.splits)
    next
      case 3
      with p show ?thesis
        by (cases "skillsTask ts" rule: rank.cases)
           (simp_all add: resumeTask_def isPending_def ranks_def resume_def catchInCreatePage_def
              split_beta split: sum.splits option.splits)
    qed
  qed
  from c step down[of "schedule env t0 k mod 4"]
  have "ranks ts' < ranks ts"
    by (metis fst_conv)
  then show "((env, profileUrl, t0, Suc k, ts', err, b, r, s'),
              (env, profileUrl, t0, k, ts, err, b, r, s))
      \<in> measure (\<lambda>(env, profileUrl, t0, k, ts, err, b, r, s). ranks ts)"
    by simp
qed

declare awaitClose.simps [simp del]

definition catchInRun ::
  "('p, 'v, 'x, 'e) env \<Rightarrow> string \<Rightarrow> ('x, 'e) waiting option \<Rightarrow> error \<Rightarrow>
     ('p, 'v, 'x, 'e) Result action" where
  "catchInRun env profileUrl w err s =
     (case w of
        None \<Rightarrow> andThen (close env None) (\<lambda>_. throw err) s
      | Some (ts, t0, k) \<Rightarrow>
          (case browser s of
             None \<Rightarrow> (Inl err, s)
           | Some b \<Rightarrow>
               (case browserClose env b s of
                  (r, s') \<Rightarrow>
                    (case awaitClose env profileUrl t0 k ts err b r s' of
                       (thrown, s'') \<Rightarrow> (Inl thrown, s'')))))"

definition browserNotSet :: error where
  "browserNotSet = Error ''Browser is not set. Please run the setup method first.''"

definition noProfileUrl :: error where
  "noProfileUrl = Error ''No profileUrl given.''"

definition notLinkedInUrl :: error where
  "notLinkedInUrl = Error ''The given URL to scrape is not a linkedin.com url.''"

definition run :: "('p, 'v, 'x, 'e) env \<Rightarrow> string \<Rightarrow> ('p, 'v, 'x, 'e) Result action" where
  "run env profileUrl s =
     (if browser s = None then (Inl browserNotSet, s)
      else if profileUrl = [] then (Inl noProfileUrl, s)
      else if \<not> includesStr profileUrl ''linkedin.com/'' then (Inl notLinkedInUrl, s)
      else
        (case runBody env profileUrl s of
           ((Inr result, w), s') \<Rightarrow> (Inr result, s')
         | ((Inl err, w), s') \<Rightarrow> catchInRun env profileUrl w err s'))"

text \<open>
  A new scraper object: the validated options, no browser; nothing has been asked of the
  engine.
\<close>

definition construct :: "ScraperUserDefinedOptions \<Rightarrow> error + state" where
  "construct u =
     (case constructor u of
        Inl e \<Rightarrow> Inl e
      | Inr opts \<Rightarrow>
          Inr \<lparr> options = opts, browser = None, alive = [], launched = 0, nextPage = 0,
                trace = [] \<rparr>)"

section \<open>Traces: navigations, invariants of the engine calls\<close>

text \<open>The navigations of a trace, in order: URL, \<^verbatim>\<open>waitUntil\<close> and timeout, if one is passed.\<close>

type_synonym navigation = "string \<times> waitUntil \<times> jsval option"

fun navs :: "event list \<Rightarrow> navigation list" where
  "navs [] = []"
| "navs (Goto p u w t # evs) = (u, w, t) # navs evs"
| "navs (ev # evs) = navs evs"

fun isLaunch :: "event \<Rightarrow> bool" where
  "isLaunch (Launch b h t) = True"
| "isLaunch ev = False"

fun isBrowserClose :: "event \<Rightarrow> bool" where
  "isBrowserClose (BrowserClose b) = True"
| "isBrowserClose ev = False"

text \<open>
  What every operation other than the launch keeps, however it ends: the options, the
  browser handle and the number of launches stay, no browser comes up, and the trace grows
  at its end, by no launch.
\<close>

definition steps :: "state \<Rightarrow> state \<Rightarrow> bool" where
  "steps s s' \<longleftrightarrow>
     options s' = options s \<and> browser s' = browser s \<and> launched s' = launched s \<and>
     set (alive s') \<subseteq> set (alive s) \<and>
     (\<exists>evs. trace s' = trace s @ evs \<and> \<not> list_ex isLaunch evs)"

text \<open>
  What an operation that returns a value keeps, dispose apart: moreover the browsers that
  are up stay up and no browser is closed.
\<close>

definition calm :: "state \<Rightarrow> state \<Rightarrow> bool" where
  "calm s s' \<longleftrightarrow>
     options s' = options s \<and> browser s' = browser s \<and> launched s' = launched s \<and>
     alive s' = alive s \<and>
     (\<exists>evs. trace s' = trace s @ evs \<and> \<not> list_ex isBrowserClose evs)"

text \<open>
  The navigations made from one state to the other all pass \<^verbatim>\<open>waitUntil: "networkidle2"\<close>
  and no timeout.
\<close>

definition untimed :: "state \<Rightarrow> state \<Rightarrow> bool" where
  "untimed s s' \<longleftrightarrow>
     (\<exists>evs. trace s' = trace s @ evs \<and> (\<forall>n \<in> set (navs evs). snd n = (NetworkIdle2, None)))"

text \<open>
  A task that can no longer be fulfilled: it holds an error as the answer it waits for,
  is inside the \<^verbatim>\<open>catch\<close> block of \<open>createPage\<close>, or is rejected. The three tasks are
  sound when none of them is so.
\<close>

fun doomed :: "('n, 'd) task \<Rightarrow> bool" where
  "doomed (AwaitNewPage r) = (case r of Inl e \<Rightarrow> True | Inr x \<Rightarrow> False)"
| "doomed (AwaitSetupPage page r) = (case r of Inl e \<Rightarrow> True | Inr x \<Rightarrow> False)"
| "doomed (AwaitShutdown err b r) = True"
| "doomed (AwaitGoto page r) = (case r of Inl e \<Rightarrow> True | Inr x \<Rightarrow> False)"
| "doomed (AwaitEval page r) = (case r of Inl e \<Rightarrow> True | Inr x \<Rightarrow> False)"
| "doomed (AwaitPageClose nodes r) = (case r of Inl e \<Rightarrow> True | Inr x \<Rightarrow> False)"
| "doomed (Settled r) = (case r of Inl e \<Rightarrow> True | Inr x \<Rightarrow> False)"

definition sound :: "('x, 'e) tasks \<Rightarrow> bool" where
  "sound ts \<longleftrightarrow>
     \<not> doomed (experiencesTask ts) \<and> \<not> doomed (educationTask ts) \<and> \<not> doomed (skillsTask ts)"

text \<open>
  An engine that answers every call with success, whenever it is asked. (The launch and
  the killing of the process tree are left open: \<open>run\<close> does not launch, and the answer
  of \<^verbatim>\<open>treeKill\<close> does not reach the caller.)
\<close>

fun isRight :: "'a + 'b \<Rightarrow> bool" where
  "isRight (Inl a) = False"
| "isRight (Inr b) = True"

definition benign :: "('p, 'v, 'x, 'e) env \<Rightarrow> bool" where
  "benign env \<longleftrightarrow>
     (\<forall>t. newPageFails env t = None \<and> setupPageFails env t = None \<and>
          autoScrollFails env t = None \<and> pageCloseFails env t = None \<and>
          browserCloseFails env t = None \<and>
          isRight (profileResult env t) \<and> isRight (volunteeringNodes env t) \<and>
          isRight (experienceNodes env t) \<and> isRight (educationResult env t) \<and>
          isRight (skillNodes env t)) \<and>
     (\<forall>t u. isRight (gotoResult env t u))"

text \<open>The session is ready: the object holds a browser handle and that browser is up.\<close>

definition live :: "state \<Rightarrow> bool" where
  "live s \<longleftrightarrow> (case browser s of None \<Rightarrow> False | Some b \<Rightarrow> b \<in> set (alive s))"

text \<open>A field of the configuration that is left out, or has the documented type.\<close>

definition typedOrOmitted :: "string \<Rightarrow> jsval option \<Rightarrow> bool" where
  "typedOrOmitted ty f = (case f of None \<Rightarrow> True | Some v \<Rightarrow> typeof v = ty)"

section \<open>Example inputs\<close>

text \<open>Configurations: a plain one, and one whose user agent is the number zero.\<close>

definition exampleConfig :: ScraperUserDefinedOptions where
  "exampleConfig =
     \<lparr> u_sessionCookieValue = Some (JStr ''token''), u_keepAlive = None,
       u_userAgent = Some (JStr ''agent''), u_timeout = None, u_headless = None \<rparr>"

definition exampleOptions :: ScraperOptions where
  "exampleOptions =
     \<lparr> sessionCookieValue = JStr ''token'', keepAlive = JBool False,
       userAgent = JStr ''agent'', timeout = JNumber (Num 10000), headless = JBool True \<rparr>"

definition zeroAgentConfig :: ScraperUserDefinedOptions where
  "zeroAgentConfig =
     \<lparr> u_sessionCookieValue = Some (JStr ''token''), u_keepAlive = None,
       u_userAgent = Some (JNumber (Num 0)), u_timeout = None, u_headless = None \<rparr>"

definition badTimeoutConfig :: ScraperUserDefinedOptions where
  "badTimeoutConfig =
     \<lparr> u_sessionCookieValue = Some (JStr ''token''), u_keepAlive = None,
       u_userAgent = None, u_timeout = Some (JStr ''5000''), u_headless = Some JNull \<rparr>"

text \<open>Requests.\<close>

definition trackUrl :: string where
  "trackUrl = ''https://www.linkedin.com/li/track''"

definition trackStylesheet :: request where
  "trackStylesheet = \<lparr> resourceType = ''stylesheet'', url = trackUrl \<rparr>"

definition siteStylesheet :: request where
  "siteStylesheet =
     \<lparr> resourceType = ''stylesheet'', url = ''https://www.linkedin.com/sc/h/main.css'' \<rparr>"

text \<open>Scraped nodes.\<close>

definition ongoingJob :: experienceNode where
  "ongoingJob =
     \<lparr> x_title = Some (js ''Engineer''), x_employmentType = None, x_company = None,
       x_description = None,
       x_dateRange = Some (js ''Jan 2020 '' @ [enDash] @ js '' PRESENT''),
       x_location = None \<rparr>"

definition undatedJob :: experienceNode where
  "undatedJob =
     \<lparr> x_title = Some (js ''Engineer''), x_employmentType = None, x_company = None,
       x_description = None, x_dateRange = None, x_location = None \<rparr>"

definition undatedVolunteering :: volunteeringNode where
  "undatedVolunteering =
     \<lparr> v_title = None, v_company = None, v_dateRange = None, v_description = None \<rparr>"

definition endorsedSkill :: skillNode where
  "endorsedSkill =
     \<lparr> s_skillName = Some (Element (Some (js '' Isabelle ''))),
       s_endorsementCount = Some (Element (Some (js '' 12 ''))) \<rparr>"



text \<open>
  An engine that answers every call with success: the login page redirects to the feed,
  every other navigation stays where it was sent, the browser process has pid 4242, and
  the documents hold one skill and nothing else.
\<close>

definition exampleUrl :: string where
  "exampleUrl = ''https://www.linkedin.com/in/example''"

definition exampleEnv :: "(unit, unit, unit, unit) env" where
  "exampleEnv =
     \<lparr> launchFails = (\<lambda>t. None),
       processPid = (\<lambda>b. Some 4242),
       newPageFails = (\<lambda>t. None),
       setupPageFails = (\<lambda>t. None),
       gotoResult = (\<lambda>t u. Inr (if u = loginUrl then ''https://www.linkedin.com/feed/'' else u)),
       autoScrollFails = (\<lambda>t. None),
       pageCloseFails = (\<lambda>t. None),
       browserCloseFails = (\<lambda>t. None),
       treeKillFails = (\<lambda>t. False),
       profileResult = (\<lambda>t. Inr ()),
       volunteeringNodes = (\<lambda>t. Inr []),
       experienceNodes = (\<lambda>t. Inr []),
       educationResult = (\<lambda>t. Inr []),
       skillNodes = (\<lambda>t. Inr [endorsedSkill]),
       schedule = (\<lambda>t k. 0),
       normExperience = (\<lambda>r. ()),
       normVolunteering = (\<lambda>r. ()),
       parseInt = jsParseInt \<rparr>"

text \<open>The same engine with a session that has expired: the login page stays.\<close>

definition expiredEnv :: "(unit, unit, unit, unit) env" where
  "expiredEnv = exampleEnv \<lparr> gotoResult := (\<lambda>t u. Inr u) \<rparr>"

text \<open>The same engine, but the navigation to the skills page runs into its timeout.\<close>

definition skillsTimeoutEnv :: "(unit, unit, unit, unit) env" where
  "skillsTimeoutEnv =
     exampleEnv \<lparr> gotoResult :=
       (\<lambda>t u. if u = exampleUrl @ ''/details/skills''
              then Inl ''Navigation timeout of 30000 ms exceeded''
              else gotoResult exampleEnv t u) \<rparr>"

text \<open>
  The engine whose navigation to the skills page runs into its timeout, with the skills
  task answered first: its navigation has failed while the other two tasks still wait for
  their pages. Then, while the browser closes, the experiences task is answered twice.
\<close>

definition raceEnv :: "(unit, unit, unit, unit) env" where
  "raceEnv = skillsTimeoutEnv \<lparr> schedule := (\<lambda>t k. if k < 3 then 2 else if k < 5 then 0 else 3) \<rparr>"

text \<open>The same, and moreover the browser refuses to close.\<close>

definition closeFailsEnv :: "(unit, unit, unit, unit) env" where
  "closeFailsEnv = skillsTimeoutEnv \<lparr> browserCloseFails := (\<lambda>t. Some ''close failed'') \<rparr>"

text \<open>
  The engine with the expired session, when the verification page cannot be closed, and
  when the browser refuses to close.
\<close>

definition pageGoneEnv :: "(unit, unit, unit, unit) env" where
  "pageGoneEnv = expiredEnv \<lparr> pageCloseFails := (\<lambda>t. Some ''page gone'') \<rparr>"

definition expiredCloseFailsEnv :: "(unit, unit, unit, unit) env" where
  "expiredCloseFailsEnv = expiredEnv \<lparr> browserCloseFails := (\<lambda>t. Some ''close failed'') \<rparr>"

text \<open>The same engine, but killing the process tree fails.\<close>

definition killFailsEnv :: "(unit, unit, unit, unit) env" where
  "killFailsEnv = exampleEnv \<lparr> treeKillFails := (\<lambda>t. True) \<rparr>"

text \<open>
  States of a scraper built from \<open>exampleConfig\<close>: as constructed; after a successful
  \<open>setup\<close>; the same with \<open>keepAlive\<close> set; after a \<open>setup\<close> that found the session
  expired.
\<close>

definition newState :: state where
  "newState =
     \<lparr> options = exampleOptions, browser = None, alive = [], launched = 0, nextPage = 0,
       trace = [] \<rparr>"

definition setupTrace :: "event list" where
  "setupTrace =
     [Launch 0 (JBool True) (JNumber (Num 10000)),
      NewPage 0 0,
      SetupPage 0 (JStr ''agent'') (JStr ''token''),
      Goto 0 loginUrl DomContentLoaded (Some (JNumber (Num 10000))),
      PageClose 0]"

definition readyState :: state where
  "readyState =
     \<lparr> options = exampleOptions, browser = Some 0, alive = [0], launched = 1, nextPage = 1,
       trace = setupTrace \<rparr>"

definition keepAliveState :: state where
  "keepAliveState = readyState \<lparr> options := exampleOptions \<lparr> keepAlive := JBool True \<rparr> \<rparr>"

definition expiredState :: state where
  "expiredState =
     \<lparr> options = exampleOptions, browser = Some 0, alive = [], launched = 1, nextPage = 1,
       trace = setupTrace @ [BrowserClose 0, TreeKill 4242] \<rparr>"

text \<open>
  After a \<open>setup\<close> that found the session expired and could not close the browser: the
  browser is still up.
\<close>

definition strandedState :: state where
  "strandedState =
     \<lparr> options = exampleOptions, browser = Some 0, alive = [0], launched = 1, nextPage = 1,
       trace = setupTrace @ [BrowserClose 0] \<rparr>"

section \<open>Invariants of the operations\<close>

subsection \<open>What every operation keeps\<close>

lemma steps_refl: "steps s s"
  by (simp add: steps_def)

lemma steps_trans:
  assumes "steps s s1" and "steps s1 s2"
  shows "steps s s2"
proof -
  from assms(1) obtain evs where 1: "trace s1 = trace s @ evs" "\<not> list_ex isLaunch evs"
    by (auto simp: steps_def)
  from assms(2) obtain evs' where 2: "trace s2 = trace s1 @ evs'" "\<not> list_ex isLaunch evs'"
    by (auto simp: steps_def)
  have "trace s2 = trace s @ (evs @ evs')" using 1 2 by simp
  moreover have "\<not> list_ex isLaunch (evs @ evs')" using 1 2 by simp
  ultimately have "\<exists>evs. trace s2 = trace s @ evs \<and> \<not> list_ex isLaunch evs"
    by blast
  moreover from assms have "options s2 = options s" "browser s2 = browser s"
    "launched s2 = launched s" "set (alive s2) \<subseteq> set (alive s)"
    by (auto simp: steps_def)
  ultimately show ?thesis by (simp add: steps_def)
qed

lemma steps_emit: "steps s (emit ev s)" if "\<not> isLaunch ev"
  using that by (simp add: steps_def emit_def)

lemma andThen_steps:
  assumes "andThen m f s = (r, s')"
    and "\<And>r1 s1. m s = (r1, s1) \<Longrightarrow> steps s s1"
    and "\<And>x s1 r2 s2. m s = (Inr x, s1) \<Longrightarrow> f x s1 = (r2, s2) \<Longrightarrow> steps s1 s2"
  shows "steps s s'"
proof (cases "m s")
  case (Pair r1 s1)
  show ?thesis
  proof (cases r1)
    case (Inl e)
    with Pair assms(1) have "s' = s1" by (simp add: andThen_def)
    with assms(2)[OF Pair] show ?thesis by simp
  next
    case (Inr x)
    with Pair assms(1) have "f x s1 = (r, s')" by (simp add: andThen_def)
    with assms(3) Pair Inr have "steps s1 s'" by blast
    with assms(2)[OF Pair] show ?thesis by (rule steps_trans)
  qed
qed

lemma pageClose_steps: "pageClose env p s = (r, s') \<Longrightarrow> steps s s'"
  by (auto simp: pageClose_def intro!: steps_emit)

lemma browserClose_steps: "browserClose env b s = (r, s') \<Longrightarrow> steps s s'"
  by (auto simp: browserClose_def steps_def emit_def split: option.splits)

lemma treeKill_steps: "treeKill env pid s = (r, s') \<Longrightarrow> steps s s'"
  by (auto simp: treeKill_def intro!: steps_emit)

lemma closePageStep_steps: "closePageStep env pg s = (c, s') \<Longrightarrow> steps s s'"
  by (auto simp: closePageStep_def steps_refl split: option.splits prod.splits sum.splits dest: pageClose_steps)

lemma afterBrowserClose_steps: "afterBrowserClose env b r s = (c, s') \<Longrightarrow> steps s s'"
  by (auto simp: afterBrowserClose_def steps_refl
      split: option.splits prod.splits sum.splits if_splits bool.splits dest: treeKill_steps)

text \<open>The second step of \<open>close\<close>, cut at its \<^verbatim>\<open>await\<close>.\<close>

lemma closeBrowserStep_split:
  "closeBrowserStep env s =
     (case browser s of
        None \<Rightarrow> (([], []), s)
      | Some b \<Rightarrow> (case browserClose env b s of (r, s') \<Rightarrow> afterBrowserClose env b r s'))"
  by (auto simp: closeBrowserStep_def afterBrowserClose_def
      split: option.splits prod.splits sum.splits bool.splits)

lemma closeBrowserStep_steps:
  assumes "closeBrowserStep env s = (c, s')"
  shows "steps s s'"
proof (cases "browser s")
  case None
  with assms show ?thesis by (simp add: closeBrowserStep_def steps_refl)
next
  case (Some b)
  obtain r s1 where bc: "browserClose env b s = (r, s1)" by (cases "browserClose env b s")
  with Some assms have "afterBrowserClose env b r s1 = (c, s')"
    by (simp add: closeBrowserStep_split)
  with browserClose_steps[OF bc] show ?thesis
    by (auto dest: afterBrowserClose_steps intro: steps_trans)
qed

lemma close_steps:
  assumes "close env pg s = (r, s')"
  shows "steps s s'"
proof -
  obtain c1 s1 where 1: "closePageStep env pg s = (c1, s1)" by (cases "closePageStep env pg s")
  obtain c2 s2 where 2: "closeBrowserStep env s1 = (c2, s2)" by (cases "closeBrowserStep env s1")
  from assms 1 2 have "s' = s2" by (auto simp: close_def split: prod.splits)
  with closePageStep_steps[OF 1] closeBrowserStep_steps[OF 2] show ?thesis
    by (auto intro: steps_trans)
qed

lemma tryCatch_steps:
  assumes "tryCatch m h s = (r, s')"
    and "\<And>r1 s1. m s = (r1, s1) \<Longrightarrow> steps s s1"
    and "\<And>e s1 r2 s2. m s = (Inl e, s1) \<Longrightarrow> h e s1 = (r2, s2) \<Longrightarrow> steps s1 s2"
  shows "steps s s'"
proof (cases "m s")
  case (Pair r1 s1)
  show ?thesis
  proof (cases r1)
    case (Inr x)
    with Pair assms(1) have "s' = s1" by (simp add: tryCatch_def)
    with assms(2)[OF Pair] show ?thesis by simp
  next
    case (Inl e)
    with Pair assms(1) have "h e s1 = (r, s')" by (simp add: tryCatch_def)
    with assms(3) Pair Inl have "steps s1 s'" by blast
    with assms(2)[OF Pair] show ?thesis by (rule steps_trans)
  qed
qed

lemma ok_steps: "ok x s = (r, s') \<Longrightarrow> steps s s'"
  by (auto simp: ok_def steps_refl)

lemma throw_steps: "throw e s = (r, s') \<Longrightarrow> steps s s'"
  by (auto simp: throw_def steps_refl)

lemma gets_steps: "gets f s = (r, s') \<Longrightarrow> steps s s'"
  by (auto simp: gets_def steps_refl)

lemma rethrow_steps: "andThen (close env None) (\<lambda>_. throw err) s = (r, s') \<Longrightarrow> steps s s'"
  by (erule andThen_steps) (auto dest: close_steps throw_steps)

lemma newPage_steps: "newPage env b s = (r, s') \<Longrightarrow> steps s s'"
  by (auto simp: newPage_def steps_def emit_def Let_def split: option.splits if_splits)

lemma setupPage_steps: "setupPage env p s = (r, s') \<Longrightarrow> steps s s'"
  by (auto simp: setupPage_def intro!: steps_emit)

lemma autoScroll_steps: "autoScroll env p s = (r, s') \<Longrightarrow> steps s s'"
  by (auto simp: autoScroll_def intro!: steps_emit)

lemma evaluate_steps: "evaluate y p s = (r, s') \<Longrightarrow> steps s s'"
  by (auto simp: evaluate_def split: sum.splits intro!: steps_emit)

lemma goto_steps: "goto env p u w t s = (r, s') \<Longrightarrow> steps s s'"
  by (auto simp: goto_def steps_def emit_def split: sum.splits)

lemma andThen_steps0:
  assumes "andThen m f s = (r, s')"
    and "\<And>r1 s1. m s = (r1, s1) \<Longrightarrow> steps s s1"
    and "\<And>x s1 r2 s2. f x s1 = (r2, s2) \<Longrightarrow> steps s1 s2"
  shows "steps s s'"
  using andThen_steps[OF assms(1)] assms(2,3) by simp

lemma configure_steps:
  "andThen (setupPage env page) (\<lambda>_. ok page) s = (r, s') \<Longrightarrow> steps s s'"
  by (erule andThen_steps0) (auto dest: setupPage_steps ok_steps)

lemma createPage_steps:
  assumes "createPage env s = (r, s')"
  shows "steps s s'"
proof (cases "browser s")
  case None
  with assms show ?thesis by (simp add: createPage_def steps_refl)
next
  case (Some b)
  let ?m = "andThen (newPage env b) (\<lambda>page. andThen (setupPage env page) (\<lambda>_. ok page))"
  have m: "steps s s1" if "?m s = (r1, s1)" for r1 s1
    using that by (rule andThen_steps0) (auto dest: newPage_steps configure_steps)
  from Some assms have "tryCatch ?m (\<lambda>err. andThen (close env None) (\<lambda>_. throw err)) s = (r, s')"
    by (simp add: createPage_def)
  then show ?thesis
    by (rule tryCatch_steps) (auto dest: m rethrow_steps)
qed

lemma getVolunteering_steps: "getVolunteering env page s = (r, s') \<Longrightarrow> steps s s'"
  unfolding getVolunteering_def by (erule andThen_steps0) (auto dest: evaluate_steps ok_steps)

lemma getProfile_steps: "getProfile env page s = (r, s') \<Longrightarrow> steps s s'"
  unfolding getProfile_def by (rule evaluate_steps)

lemma primaryPage_steps:
  assumes "primaryPage env pu s = (r, s')"
  shows "steps s s'"
proof -
  have tail: "steps s1 s2"
    if "andThen (autoScroll env page) (\<lambda>_.
        andThen (getProfile env page) (\<lambda>profile.
        andThen (getVolunteering env page) (\<lambda>volunteering.
        ok (page, profile, volunteering)))) s1 = (r2, s2)" for page s1 r2 s2
    using that
    by (rule andThen_steps0)
       (auto dest: autoScroll_steps elim!: andThen_steps0 dest: getProfile_steps getVolunteering_steps ok_steps)
  have mid: "steps s1 s2"
    if "andThen (goto env page pu DomContentLoaded t) (\<lambda>_.
        andThen (autoScroll env page) (\<lambda>_.
        andThen (getProfile env page) (\<lambda>profile.
        andThen (getVolunteering env page) (\<lambda>volunteering.
        ok (page, profile, volunteering))))) s1 = (r2, s2)" for page t s1 r2 s2
    using that by (rule andThen_steps) (auto dest: goto_steps tail)
  have mid': "steps s1 s2"
    if "andThen (gets options) (\<lambda>opts.
        andThen (goto env page pu DomContentLoaded (Some (timeout opts))) (\<lambda>_.
        andThen (autoScroll env page) (\<lambda>_.
        andThen (getProfile env page) (\<lambda>profile.
        andThen (getVolunteering env page) (\<lambda>volunteering.
        ok (page, profile, volunteering)))))) s1 = (r2, s2)" for page s1 r2 s2
    using that mid[of page "Some (timeout (options s1))" s1 r2 s2]
    by (simp add: andThen_def gets_def)
  show ?thesis
    using assms unfolding primaryPage_def
    by (rule andThen_steps) (use mid' in \<open>auto dest: createPage_steps\<close>)
qed

lemma dispose_steps: "dispose env page s = (r, s') \<Longrightarrow> steps s s'"
  unfolding dispose_def
  by (erule andThen_steps0) (auto dest: gets_steps close_steps pageClose_steps split: if_splits)

subsection \<open>The tasks\<close>

lemma startTask_steps: "startTask env s = (t, s') \<Longrightarrow> steps s s'"
  by (auto simp: startTask_def steps_refl split: option.splits prod.splits dest: newPage_steps)

lemma startTasks_steps:
  fixes ts :: "('x, 'e) tasks"
  assumes "startTasks env s = (ts, s')"
  shows "steps s s'"
proof -
  obtain t0 s0 where 0: "startTask env s = (t0 :: (experienceNode list, 'x list) task, s0)"
    by (cases "startTask env s :: (experienceNode list, 'x list) task \<times> state")
  obtain t1 s1 where 1: "startTask env s0 = (t1 :: ('e list, 'e list) task, s1)"
    by (cases "startTask env s0 :: ('e list, 'e list) task \<times> state")
  obtain t2 s2 where 2: "startTask env s1 = (t2 :: (skillNode list, Skill list) task, s2)"
    by (cases "startTask env s1 :: (skillNode list, Skill list) task \<times> state")
  from assms 0 1 2 have "s' = s2" by (simp add: startTasks_def)
  with startTask_steps[OF 0] startTask_steps[OF 1] startTask_steps[OF 2] show ?thesis
    by (auto intro: steps_trans)
qed

lemma closeThenThrow_steps: "closeThenThrow env err b r s = (e, s') \<Longrightarrow> steps s s'"
  by (auto simp: closeThenThrow_def split: prod.splits sum.splits dest: afterBrowserClose_steps)

lemma catchInCreatePage_steps: "catchInCreatePage env err s = (t, s') \<Longrightarrow> steps s s'"
  by (auto simp: catchInCreatePage_def steps_refl split: option.splits prod.splits
      dest: browserClose_steps)

lemma resume_steps:
  assumes "resume env u y f t s = (t', s')"
  shows "steps s s'"
  using assms
  by (cases t)
     (auto simp: resume_def steps_refl split: sum.splits prod.splits
       dest: catchInCreatePage_steps setupPage_steps goto_steps closeThenThrow_steps
         evaluate_steps pageClose_steps)

lemma resumeTask_steps: "resumeTask env pu i ts s = (ts', s') \<Longrightarrow> steps s s'"
  by (auto simp: resumeTask_def split: if_splits prod.splits dest: resume_steps)

lemma awaitAll_steps:
  "awaitAll env pu t0 k ts s = ((r, ts', k'), s') \<Longrightarrow> steps s s'"
proof (induction env pu t0 k ts s rule: awaitAll.induct)
  case (1 env pu t0 k ts s)
  show ?case
  proof (cases "rejected ts")
    case (Some err)
    with "1.prems" show ?thesis by (simp add: awaitAll.simps[of env pu t0 k] steps_refl)
  next
    case None
    show ?thesis
    proof (cases "fulfilled ts")
      case (Some v)
      with None "1.prems" show ?thesis by (simp add: awaitAll.simps[of env pu t0 k] steps_refl)
    next
      case n: None
      obtain ts1 s1 where st: "resumeTask env pu (chosen (schedule env t0 k) ts) ts s = (ts1, s1)"
        by (cases "resumeTask env pu (chosen (schedule env t0 k) ts) ts s")
      with None n "1.prems" have "awaitAll env pu t0 (Suc k) ts1 s1 = ((r, ts', k'), s')"
        by (simp add: awaitAll.simps[of env pu t0 k])
      from "1.IH"[OF None n st[symmetric] this] have "steps s1 s'" .
      with resumeTask_steps[OF st] show ?thesis by (rule steps_trans)
    qed
  qed
qed

lemma detailPages_steps:
  assumes "detailPages env pu s = ((r, ts, k), s')"
  shows "steps s s'"
proof -
  obtain ts0 s0 where st: "startTasks env s = (ts0, s0)" by (cases "startTasks env s")
  with assms have "awaitAll env pu (now s) 0 ts0 s0 = ((r, ts, k), s')"
    by (simp add: detailPages_def)
  with startTasks_steps[OF st] show ?thesis by (auto dest: awaitAll_steps intro: steps_trans)
qed

lemma awaitClose_steps:
  "awaitClose env pu t0 k ts err b r s = (e, s') \<Longrightarrow> steps s s'"
proof (induction env pu t0 k ts err b r s rule: awaitClose.induct)
  case (1 env pu t0 k ts err b r s)
  show ?case
  proof (cases "schedule env t0 k mod 4 \<noteq> 3 \<and> isPending ts (schedule env t0 k mod 4)")
    case False
    with "1.prems" have "closeThenThrow env err b r s = (e, s')"
      by (auto simp: awaitClose.simps[of env pu t0 k])
    then show ?thesis by (rule closeThenThrow_steps)
  next
    case True
    obtain ts1 s1 where st: "resumeTask env pu (schedule env t0 k mod 4) ts s = (ts1, s1)"
      by (cases "resumeTask env pu (schedule env t0 k mod 4) ts s")
    with True "1.prems" have "awaitClose env pu t0 (Suc k) ts1 err b r s1 = (e, s')"
      by (simp add: awaitClose.simps[of env pu t0 k])
    from "1.IH"[OF True st[symmetric] this] have "steps s1 s'" .
    with resumeTask_steps[OF st] show ?thesis by (rule steps_trans)
  qed
qed

lemma catchInRun_steps:
  assumes "catchInRun env pu w err s = (r, s')"
  shows "steps s s'"
proof (cases w)
  case None
  with assms show ?thesis by (auto simp: catchInRun_def dest: rethrow_steps)
next
  case (Some a)
  obtain ts t0 k where a: "a = (ts, t0, k)" by (cases a)
  show ?thesis
  proof (cases "browser s")
    case None
    with Some a assms show ?thesis by (simp add: catchInRun_def steps_refl)
  next
    case b: (Some b)
    obtain rc s1 where bc: "browserClose env b s = (rc, s1)" by (cases "browserClose env b s")
    obtain e s2 where ac: "awaitClose env pu t0 k ts err b rc s1 = (e, s2)"
      by (cases "awaitClose env pu t0 k ts err b rc s1")
    from Some a b bc ac assms have "s' = s2" by (simp add: catchInRun_def)
    with browserClose_steps[OF bc] awaitClose_steps[OF ac] show ?thesis
      by (auto intro: steps_trans)
  qed
qed

lemma runBody_steps:
  assumes "runBody env pu s = (r, s')"
  shows "steps s s'"
proof -
  obtain r1 s1 where p: "primaryPage env pu s = (r1, s1)" by (cases "primaryPage env pu s")
  show ?thesis
  proof (cases r1)
    case (Inl e)
    with p assms have "s' = s1" by (simp add: runBody_def)
    with primaryPage_steps[OF p] show ?thesis by simp
  next
    case (Inr y)
    obtain page pr vol where y: "y = (page, pr, vol)" by (cases y)
    obtain r2 ts k s2 where d: "detailPages env pu s1 = ((r2, ts, k), s2)"
      by (cases "detailPages env pu s1") auto
    from primaryPage_steps[OF p] detailPages_steps[OF d] have s2: "steps s s2"
      by (rule steps_trans)
    show ?thesis
    proof (cases r2)
      case (Inl e)
      with p Inr y d assms have "s' = s2" by (simp add: runBody_def)
      with s2 show ?thesis by simp
    next
      case r: (Inr v)
      obtain xs es sk where v: "v = (xs, es, sk)" by (cases v)
      obtain r3 s3 where dz: "dispose env page s2 = (r3, s3)" by (cases "dispose env page s2")
      from p Inr y d r v dz assms have "s' = s3"
        by (cases r3) (simp_all add: runBody_def)
      with s2 dispose_steps[OF dz] show ?thesis by (auto intro: steps_trans)
    qed
  qed
qed

lemma run_steps:
  assumes "run env pu s = (r, s')"
  shows "steps s s'"
proof (cases "browser s = None \<or> pu = [] \<or> \<not> includesStr pu ''linkedin.com/''")
  case True
  with assms have "s' = s" by (auto simp: run_def split: if_splits)
  then show ?thesis by (simp add: steps_refl)
next
  case False
  obtain rb w s1 where rb: "runBody env pu s = ((rb, w), s1)"
    by (cases "runBody env pu s") auto
  show ?thesis
  proof (cases rb)
    case (Inr res)
    with False rb assms have "s' = s1" by (auto simp: run_def)
    with runBody_steps[OF rb] show ?thesis by simp
  next
    case (Inl err)
    with False rb assms have "catchInRun env pu w err s1 = (r, s')" by (auto simp: run_def)
    with runBody_steps[OF rb] show ?thesis by (auto dest: catchInRun_steps intro: steps_trans)
  qed
qed

lemma run_launched: "run env pu s = (r, s') \<Longrightarrow> launched s' = launched s"
  by (drule run_steps) (simp add: steps_def)

subsection \<open>Operations that return a value\<close>

lemma calm_refl: "calm s s"
  by (simp add: calm_def)

lemma calm_trans:
  assumes "calm s s1" and "calm s1 s2"
  shows "calm s s2"
proof -
  from assms(1) obtain evs where 1: "trace s1 = trace s @ evs" "\<not> list_ex isBrowserClose evs"
    by (auto simp: calm_def)
  from assms(2) obtain evs' where 2: "trace s2 = trace s1 @ evs'" "\<not> list_ex isBrowserClose evs'"
    by (auto simp: calm_def)
  have "trace s2 = trace s @ (evs @ evs')" using 1 2 by simp
  moreover have "\<not> list_ex isBrowserClose (evs @ evs')" using 1 2 by simp
  ultimately have "\<exists>evs. trace s2 = trace s @ evs \<and> \<not> list_ex isBrowserClose evs"
    by blast
  moreover from assms have "options s2 = options s" "browser s2 = browser s"
    "launched s2 = launched s" "alive s2 = alive s"
    by (auto simp: calm_def)
  ultimately show ?thesis by (simp add: calm_def)
qed

lemma andThen_InrE:
  assumes "andThen m f s = (Inr y, s')"
  obtains x s1 where "m s = (Inr x, s1)" and "f x s1 = (Inr y, s')"
  using assms by (auto simp: andThen_def split: prod.splits sum.splits)

lemma rethrow_Inl: "andThen (close env None) (\<lambda>_. throw err) s = (r, s') \<Longrightarrow> \<exists>e. r = Inl e"
  by (auto simp: andThen_def throw_def split: prod.splits sum.splits)

lemma tryCatch_rethrow_InrD:
  "tryCatch m (\<lambda>err. andThen (close env None) (\<lambda>_. throw err)) s = (Inr y, s') \<Longrightarrow> m s = (Inr y, s')"
  by (auto simp: tryCatch_def split: prod.splits sum.splits dest: rethrow_Inl)

lemma emit_calm: "\<not> isBrowserClose ev \<Longrightarrow> calm s (emit ev s)"
  by (simp add: calm_def emit_def)

lemma newPage_calm: "newPage env b s = (r, s') \<Longrightarrow> calm s s'"
  by (auto simp: newPage_def calm_def emit_def Let_def split: option.splits if_splits)

lemma newPage_up: "newPage env b s = (Inr p, s') \<Longrightarrow> b \<in> set (alive s)"
  by (auto simp: newPage_def Let_def split: option.splits if_splits)

lemma setupPage_calm: "setupPage env p s = (r, s') \<Longrightarrow> calm s s'"
  by (auto simp: setupPage_def intro!: emit_calm)

lemma autoScroll_calm: "autoScroll env p s = (r, s') \<Longrightarrow> calm s s'"
  by (auto simp: autoScroll_def intro!: emit_calm)

lemma evaluate_calm: "evaluate y p s = (r, s') \<Longrightarrow> calm s s'"
  by (auto simp: evaluate_def split: sum.splits intro!: emit_calm)

lemma pageClose_calm: "pageClose env p s = (r, s') \<Longrightarrow> calm s s'"
  by (auto simp: pageClose_def intro!: emit_calm)

lemma goto_calm: "goto env p u w t s = (r, s') \<Longrightarrow> calm s s'"
  by (auto simp: goto_def split: sum.splits intro!: emit_calm)

lemma ok_calm: "ok x s = (r, s') \<Longrightarrow> calm s s'"
  by (auto simp: ok_def calm_refl)

lemma gets_calm: "gets f s = (r, s') \<Longrightarrow> calm s s'"
  by (auto simp: gets_def calm_refl)

lemma calm_extends: "calm s s' \<Longrightarrow> \<exists>evs. trace s' = trace s @ evs"
  by (auto simp: calm_def)

lemma newPage_trace: "newPage env b s = (Inr p, s') \<Longrightarrow> trace s' = trace s @ [NewPage b p]"
  by (auto simp: newPage_def emit_def Let_def split: option.splits if_splits)

lemma createPage_first:
  assumes "createPage env s = (Inr p, s')"
  shows "\<exists>b rest. browser s = Some b \<and> trace s' = trace s @ NewPage b p # rest"
proof (cases "browser s")
  case None
  with assms show ?thesis by (simp add: createPage_def)
next
  case (Some b)
  with assms have "andThen (newPage env b) (\<lambda>page. andThen (setupPage env page) (\<lambda>_. ok page)) s = (Inr p, s')"
    by (auto simp: createPage_def dest: tryCatch_rethrow_InrD)
  then show ?thesis using Some
    by (auto elim!: andThen_InrE simp: setupPage_def ok_def emit_def dest!: newPage_trace)
qed

lemma andThen_calm:
  assumes "andThen m f s = (Inr y, s')"
    and "\<And>x s1. m s = (Inr x, s1) \<Longrightarrow> calm s s1"
    and "\<And>x s1. f x s1 = (Inr y, s') \<Longrightarrow> calm s1 s'"
  shows "calm s s'"
  using assms by (auto elim!: andThen_InrE intro: calm_trans)

lemma createPage_calm:
  assumes "createPage env s = (Inr p, s')"
  shows "calm s s' \<and> (\<exists>b. browser s = Some b \<and> b \<in> set (alive s))"
proof (cases "browser s")
  case None
  with assms show ?thesis by (simp add: createPage_def)
next
  case (Some b)
  with assms have "andThen (newPage env b) (\<lambda>page. andThen (setupPage env page) (\<lambda>_. ok page)) s = (Inr p, s')"
    by (auto simp: createPage_def dest: tryCatch_rethrow_InrD)
  then obtain x s1 where 1: "newPage env b s = (Inr x, s1)"
    and 2: "andThen (setupPage env x) (\<lambda>_. ok x) s1 = (Inr p, s')"
    by (erule andThen_InrE)
  from 2 have "calm s1 s'"
    by (rule andThen_calm) (auto dest: setupPage_calm ok_calm)
  with newPage_calm[OF 1] newPage_up[OF 1] Some show ?thesis by (auto intro: calm_trans)
qed

lemma primaryPage_rest:
  assumes "andThen (gets options) (\<lambda>opts.
        andThen (goto env p pu DomContentLoaded (Some (timeout opts))) (\<lambda>_.
        andThen (autoScroll env p) (\<lambda>_.
        andThen (getProfile env p) (\<lambda>profile.
        andThen (getVolunteering env p) (\<lambda>volunteering.
        ok (p, profile, volunteering)))))) s1 = (Inr (page, pr, vol), s')"
  shows "p = page" and "calm s1 s'"
proof -
  from assms show "p = page"
    by (elim andThen_InrE) (simp add: ok_def)
  from assms show "calm s1 s'"
    unfolding getProfile_def getVolunteering_def
    apply -
    apply (erule andThen_calm)
     apply (erule gets_calm)
    apply (erule andThen_calm)
     apply (erule goto_calm)
    apply (erule andThen_calm)
     apply (erule autoScroll_calm)
    apply (erule andThen_calm)
     apply (erule evaluate_calm)
    apply (erule andThen_calm)
     apply (erule andThen_calm)
      apply (erule evaluate_calm)
     apply (erule ok_calm)
    apply (erule ok_calm)
    done
qed

lemma primaryPage_calm:
  assumes "primaryPage env pu s = (Inr (page, pr, vol), s')"
  shows "calm s s' \<and> (\<exists>b rest. browser s = Some b \<and> b \<in> set (alive s) \<and>
           trace s' = trace s @ NewPage b page # rest)"
proof -
  from assms obtain p s1 where cp: "createPage env s = (Inr p, s1)"
    and rest: "andThen (gets options) (\<lambda>opts.
        andThen (goto env p pu DomContentLoaded (Some (timeout opts))) (\<lambda>_.
        andThen (autoScroll env p) (\<lambda>_.
        andThen (getProfile env p) (\<lambda>profile.
        andThen (getVolunteering env p) (\<lambda>volunteering.
        ok (p, profile, volunteering)))))) s1 = (Inr (page, pr, vol), s')"
    unfolding primaryPage_def by (erule andThen_InrE)
  from primaryPage_rest[OF rest] have p: "p = page" and c2: "calm s1 s'" .
  from cp have c1: "calm s s1" and live: "\<exists>b. browser s = Some b \<and> b \<in> set (alive s)"
    by (auto dest: createPage_calm)
  from createPage_first[OF cp] calm_extends[OF c2] live p
  have "\<exists>b rest. browser s = Some b \<and> b \<in> set (alive s) \<and> trace s' = trace s @ NewPage b page # rest"
    by auto
  with calm_trans[OF c1 c2] show ?thesis by blast
qed

subsection \<open>The wait for the three tasks\<close>

text \<open>A task that can no longer be fulfilled stays so; one that still can closes no browser.\<close>

lemma resume_doomed: "doomed t \<Longrightarrow> doomed (fst (resume env u y f t s))"
  by (cases t)
     (auto simp: resume_def catchInCreatePage_def split_beta split: sum.splits option.splits)

lemma resume_calm: "\<not> doomed t \<Longrightarrow> resume env u y f t s = (t', s') \<Longrightarrow> calm s s'"
  by (cases t)
     (auto simp: resume_def calm_refl split: sum.splits prod.splits
       dest: setupPage_calm goto_calm evaluate_calm pageClose_calm)

lemma resumeTask_unsound:
  assumes "\<not> sound ts"
  shows "\<not> sound (fst (resumeTask env pu i ts s))"
proof -
  consider "i = 0" | "i = 1" | "i \<noteq> 0 \<and> i \<noteq> 1" by blast
  then show ?thesis
  proof cases
    case 1
    with assms show ?thesis
      by (auto simp: sound_def resumeTask_def split_beta dest: resume_doomed)
  next
    case 2
    with assms show ?thesis
      by (auto simp: sound_def resumeTask_def split_beta dest: resume_doomed)
  next
    case 3
    with assms show ?thesis
      by (auto simp: sound_def resumeTask_def split_beta dest: resume_doomed)
  qed
qed

lemma resumeTask_calm: "sound ts \<Longrightarrow> resumeTask env pu i ts s = (ts', s') \<Longrightarrow> calm s s'"
  by (auto simp: sound_def resumeTask_def split: if_splits prod.splits dest: resume_calm)

lemma fulfilment_sound: "fulfilment t = Some v \<Longrightarrow> \<not> doomed t"
  by (cases t rule: fulfilment.cases) auto

lemma fulfilled_sound: "fulfilled ts = Some v \<Longrightarrow> sound ts"
  by (auto simp: fulfilled_def sound_def split: option.splits dest: fulfilment_sound)

lemma rejection_doomed: "rejection t = Some e \<Longrightarrow> doomed t"
  by (cases t rule: rejection.cases) auto

lemma rejected_unsound: "rejected ts = Some e \<Longrightarrow> \<not> sound ts"
  by (auto simp: rejected_def sound_def split: option.splits dest: rejection_doomed)

lemma fulfilled_not_rejected: "fulfilled ts = Some v \<Longrightarrow> rejected ts = None"
  using fulfilled_sound[of ts v] rejected_unsound[of ts] by (cases "rejected ts") auto

text \<open>
  The wait ends rejected with the reason of the first task rejected, or fulfilled with
  the values of the three, and in that case no task ever held an error and no browser was
  closed.
\<close>

lemma awaitAll_result:
  "awaitAll env pu t0 k ts s = ((r, ts', k'), s') \<Longrightarrow>
     (case r of Inl e \<Rightarrow> rejected ts' = Some e
      | Inr v \<Rightarrow> rejected ts' = None \<and> fulfilled ts' = Some v)"
proof (induction env pu t0 k ts s rule: awaitAll.induct)
  case (1 env pu t0 k ts s)
  show ?case
  proof (cases "rejected ts")
    case (Some err)
    with "1.prems" show ?thesis by (auto simp: awaitAll.simps[of env pu t0 k])
  next
    case None
    show ?thesis
    proof (cases "fulfilled ts")
      case (Some v)
      with None "1.prems" show ?thesis by (auto simp: awaitAll.simps[of env pu t0 k])
    next
      case n: None
      obtain ts1 s1 where st: "resumeTask env pu (chosen (schedule env t0 k) ts) ts s = (ts1, s1)"
        by (cases "resumeTask env pu (chosen (schedule env t0 k) ts) ts s")
      with None n "1.prems" have "awaitAll env pu t0 (Suc k) ts1 s1 = ((r, ts', k'), s')"
        by (simp add: awaitAll.simps[of env pu t0 k])
      from "1.IH"[OF None n st[symmetric] this] show ?thesis .
    qed
  qed
qed

lemma awaitAll_calm:
  "awaitAll env pu t0 k ts s = ((Inr v, ts', k'), s') \<Longrightarrow> sound ts \<and> calm s s'"
proof (induction env pu t0 k ts s rule: awaitAll.induct)
  case (1 env pu t0 k ts s)
  show ?case
  proof (cases "rejected ts")
    case (Some err)
    with "1.prems" show ?thesis by (auto simp: awaitAll.simps[of env pu t0 k])
  next
    case None
    show ?thesis
    proof (cases "fulfilled ts")
      case (Some v)
      with None "1.prems" show ?thesis
        by (auto simp: awaitAll.simps[of env pu t0 k] calm_refl dest: fulfilled_sound)
    next
      case n: None
      obtain ts1 s1 where st: "resumeTask env pu (chosen (schedule env t0 k) ts) ts s = (ts1, s1)"
        by (cases "resumeTask env pu (chosen (schedule env t0 k) ts) ts s")
      with None n "1.prems" have "awaitAll env pu t0 (Suc k) ts1 s1 = ((Inr v, ts', k'), s')"
        by (simp add: awaitAll.simps[of env pu t0 k])
      from "1.IH"[OF None n st[symmetric] this] have 2: "sound ts1" "calm s1 s'" by simp_all
      from 2(1) st resumeTask_unsound[of ts env pu "chosen (schedule env t0 k) ts" s]
      have "sound ts" by auto
      with resumeTask_calm[OF this st] 2(2) show ?thesis by (auto intro: calm_trans)
    qed
  qed
qed

lemma startTask_calm: "startTask env s = (t, s') \<Longrightarrow> calm s s'"
  by (auto simp: startTask_def calm_refl split: option.splits prod.splits dest: newPage_calm)

lemma startTasks_calm:
  fixes ts :: "('x, 'e) tasks"
  assumes "startTasks env s = (ts, s')"
  shows "calm s s'"
proof -
  obtain t0 s0 where 0: "startTask env s = (t0 :: (experienceNode list, 'x list) task, s0)"
    by (cases "startTask env s :: (experienceNode list, 'x list) task \<times> state")
  obtain t1 s1 where 1: "startTask env s0 = (t1 :: ('e list, 'e list) task, s1)"
    by (cases "startTask env s0 :: ('e list, 'e list) task \<times> state")
  obtain t2 s2 where 2: "startTask env s1 = (t2 :: (skillNode list, Skill list) task, s2)"
    by (cases "startTask env s1 :: (skillNode list, Skill list) task \<times> state")
  from assms 0 1 2 have "s' = s2" by (simp add: startTasks_def)
  with startTask_calm[OF 0] startTask_calm[OF 1] startTask_calm[OF 2] show ?thesis
    by (auto intro: calm_trans)
qed

lemma detailPages_calm:
  assumes "detailPages env pu s = ((Inr v, ts, k), s')"
  shows "calm s s'"
proof -
  obtain ts0 s0 where st: "startTasks env s = (ts0, s0)" by (cases "startTasks env s")
  with assms have "awaitAll env pu (now s) 0 ts0 s0 = ((Inr v, ts, k), s')"
    by (simp add: detailPages_def)
  with startTasks_calm[OF st] show ?thesis by (auto dest: awaitAll_calm intro: calm_trans)
qed

lemma detailPages_result:
  assumes "detailPages env pu s = ((r, ts, k), s')"
  shows "case r of Inl e \<Rightarrow> rejected ts = Some e
         | Inr v \<Rightarrow> rejected ts = None \<and> fulfilled ts = Some v"
proof -
  obtain ts0 s0 where st: "startTasks env s = (ts0, s0)" by (cases "startTasks env s")
  with assms have "awaitAll env pu (now s) 0 ts0 s0 = ((r, ts, k), s')"
    by (simp add: detailPages_def)
  then show ?thesis by (rule awaitAll_result)
qed

subsection \<open>Runs that return a result\<close>

lemma catchInRun_Inl: "catchInRun env pu w err s = (r, s') \<Longrightarrow> \<exists>e. r = Inl e"
  by (auto simp: catchInRun_def split: option.splits prod.splits dest: rethrow_Inl)

lemma run_InrD:
  assumes "run env pu s = (Inr res, s')"
  shows "\<exists>page pr vol s1 xs es sk ts k s2.
           browser s \<noteq> None \<and> pu \<noteq> [] \<and> includesStr pu ''linkedin.com/'' \<and>
           primaryPage env pu s = (Inr (page, pr, vol), s1) \<and>
           detailPages env pu s1 = ((Inr (xs, es, sk), ts, k), s2) \<and>
           dispose env page s2 = (Inr (), s') \<and>
           res = \<lparr> profile = pr, experiences = xs, education = es, volunteering = vol,
                   skills = sk \<rparr>"
proof -
  from assms have v: "browser s \<noteq> None" "pu \<noteq> []" "includesStr pu ''linkedin.com/''"
    by (auto simp: run_def split: if_splits)
  obtain rb w s0 where rb: "runBody env pu s = ((rb, w), s0)"
    by (cases "runBody env pu s") auto
  from v assms rb have rb': "rb = Inr res" "s0 = s'"
    by (cases rb; auto simp: run_def dest: catchInRun_Inl)+
  obtain r1 s1 where p: "primaryPage env pu s = (r1, s1)" by (cases "primaryPage env pu s")
  from rb rb' p obtain y where r1: "r1 = Inr y"
    by (cases r1) (auto simp: runBody_def)
  obtain page pr vol where y: "y = (page, pr, vol)" by (cases y)
  obtain r2 ts k s2 where d: "detailPages env pu s1 = ((r2, ts, k), s2)"
    by (cases "detailPages env pu s1") auto
  from rb rb' p r1 y d obtain z where r2: "r2 = Inr z"
    by (cases r2) (auto simp: runBody_def)
  obtain xs es sk where z: "z = (xs, es, sk)" by (cases z)
  obtain r3 s3 where dz: "dispose env page s2 = (r3, s3)" by (cases "dispose env page s2")
  from rb rb' p r1 y d r2 z dz have "r3 = Inr ()" "s3 = s'"
    "res = \<lparr> profile = pr, experiences = xs, education = es, volunteering = vol, skills = sk \<rparr>"
    by (cases r3; auto simp: runBody_def)+
  with v p r1 y d r2 z dz show ?thesis by blast
qed

lemma run_success_shape:
  assumes "run env pu s = (Inr res, s')"
  shows "\<exists>b page evs s2. browser s = Some b \<and> b \<in> set (alive s) \<and> calm s s2 \<and>
           trace s2 = trace s @ NewPage b page # evs \<and> dispose env page s2 = (Inr (), s')"
proof -
  from run_InrD[OF assms] obtain page pr vol s1 xs es sk ts k s2
    where 1: "primaryPage env pu s = (Inr (page, pr, vol), s1)"
      and 2: "detailPages env pu s1 = ((Inr (xs, es, sk), ts, k), s2)"
      and 3: "dispose env page s2 = (Inr (), s')"
    by blast
  from primaryPage_calm[OF 1] obtain b rest where c1: "calm s s1"
    and b: "browser s = Some b" "b \<in> set (alive s)" and t1: "trace s1 = trace s @ NewPage b page # rest"
    by blast
  from detailPages_calm[OF 2] have c2: "calm s1 s2" .
  from calm_extends[OF c2] t1 obtain evs where "trace s2 = trace s @ NewPage b page # evs" by auto
  with calm_trans[OF c1 c2] b 3 show ?thesis by blast
qed

lemma calm_no_close:
  assumes "calm s s2" and "trace s2 = trace s @ evs"
  shows "\<not> list_ex isBrowserClose evs"
  using assms by (auto simp: calm_def)

subsection \<open>A cooperative engine; a closed browser\<close>

lemma calm_live: "calm s s' \<Longrightarrow> live s \<Longrightarrow> live s'"
  by (auto simp: calm_def live_def split: option.splits)

lemma rethrow_result: "\<exists>e' s'. andThen (close env None) (\<lambda>_. throw err) s = (Inl e', s')"
  by (auto simp: andThen_def throw_def split: prod.splits sum.splits)

lemma isRightE: "isRight r \<Longrightarrow> (\<And>x. r = Inr x \<Longrightarrow> P) \<Longrightarrow> P"
  by (cases r) auto

lemma createPage_runs:
  assumes "benign env" and "live s"
  shows "\<exists>p s'. createPage env s = (Inr p, s')"
  using assms
  by (auto simp: live_def benign_def createPage_def tryCatch_def andThen_def newPage_def
      setupPage_def ok_def answer_def Let_def split: option.splits)

lemma evaluate_runs: "isRight (y (now s)) \<Longrightarrow> \<exists>x s'. evaluate y p s = (Inr x, s')"
  by (auto simp: evaluate_def elim!: isRightE)

lemma goto_runs:
  assumes "benign env"
  shows "\<exists>x s'. goto env p u w t s = (Inr x, s')"
proof -
  from assms have "isRight (gotoResult env (now s) u)" by (simp add: benign_def)
  then show ?thesis by (cases "gotoResult env (now s) u") (simp_all add: goto_def)
qed

lemma pageClose_runs: "benign env \<Longrightarrow> \<exists>s'. pageClose env p s = (Inr (), s')"
  by (simp add: pageClose_def benign_def answer_def)

lemma autoScroll_runs: "benign env \<Longrightarrow> \<exists>s'. autoScroll env p s = (Inr (), s')"
  by (simp add: autoScroll_def benign_def answer_def)

lemma setupPage_runs: "benign env \<Longrightarrow> \<exists>s'. setupPage env p s = (Inr (), s')"
  by (simp add: setupPage_def benign_def answer_def)

text \<open>With such an engine no task comes to hold an error, and the wait is fulfilled.\<close>

lemma startTask_sound:
  assumes "benign env" and "live s"
  shows "\<not> doomed (fst (startTask env s))"
  using assms
  by (auto simp: startTask_def newPage_def live_def benign_def Let_def split: option.splits)

lemma resume_sound:
  assumes "benign env" and "\<forall>t. isRight (y t)" and "\<not> doomed t"
  shows "\<not> doomed (fst (resume env u y f t s))"
proof (cases t)
  case (AwaitNewPage r)
  with assms setupPage_runs[OF assms(1), of _ s] show ?thesis
    by (cases r) (auto simp: resume_def split_beta, metis fst_conv isRight.simps(2) isRightE sum.case(2))
next
  case (AwaitSetupPage page r)
  with assms goto_runs[OF assms(1), of page u NetworkIdle2 None s] show ?thesis
    by (cases r) (auto simp: resume_def)
next
  case (AwaitGoto page r)
  with assms evaluate_runs[of y s page] show ?thesis
    by (cases r) (auto simp: resume_def)
next
  case (AwaitEval page r)
  with assms pageClose_runs[OF assms(1), of page s] show ?thesis
    by (cases r) (auto simp: resume_def)
next
  case (AwaitPageClose nodes r)
  with assms show ?thesis by (cases r) (auto simp: resume_def)
next
  case (Settled r)
  with assms show ?thesis by (cases r) (auto simp: resume_def)
next
  case (AwaitShutdown err b r)
  with assms show ?thesis by simp
qed

lemma resumeTask_sound:
  assumes "benign env" and "sound ts"
  shows "sound (fst (resumeTask env pu i ts s))"
proof -
  from assms(1) have y: "\<forall>t. isRight (experienceNodes env t)" "\<forall>t. isRight (educationResult env t)"
    "\<forall>t. isRight (skillNodes env t)"
    by (simp_all add: benign_def)
  consider "i = 0" | "i = 1" | "i \<noteq> 0 \<and> i \<noteq> 1" by blast
  then show ?thesis
  proof cases
    case 1
    with assms(2) resume_sound[OF assms(1) y(1), of "experiencesTask ts"] show ?thesis
      by (auto simp: sound_def resumeTask_def split_beta)
  next
    case 2
    with assms(2) resume_sound[OF assms(1) y(2), of "educationTask ts"] show ?thesis
      by (auto simp: sound_def resumeTask_def split_beta)
  next
    case 3
    with assms(2) resume_sound[OF assms(1) y(3), of "skillsTask ts"] show ?thesis
      by (auto simp: sound_def resumeTask_def split_beta)
  qed
qed

lemma awaitAll_runs:
  "benign env \<Longrightarrow> sound ts \<Longrightarrow> \<exists>v ts' k' s'. awaitAll env pu t0 k ts s = ((Inr v, ts', k'), s')"
proof (induction env pu t0 k ts s rule: awaitAll.induct)
  case (1 env pu t0 k ts s)
  from "1.prems"(2) have None: "rejected ts = None"
    using rejected_unsound[of ts] by (cases "rejected ts") auto
  show ?case
  proof (cases "fulfilled ts")
    case (Some v)
    with None have "awaitAll env pu t0 k ts s = ((Inr v, ts, k), s)"
      by (simp add: awaitAll.simps[of env pu t0 k])
    then show ?thesis by blast
  next
    case n: None
    obtain ts1 s1 where st: "resumeTask env pu (chosen (schedule env t0 k) ts) ts s = (ts1, s1)"
      by (cases "resumeTask env pu (chosen (schedule env t0 k) ts) ts s")
    from resumeTask_sound[OF "1.prems", of pu "chosen (schedule env t0 k) ts" s] st
    have "sound ts1" by simp
    from "1.IH"[OF None n st[symmetric] "1.prems"(1) this] None n st show ?thesis
      by (simp add: awaitAll.simps[of env pu t0 k])
  qed
qed

lemma startTasks_sound:
  fixes env :: "('p, 'v, 'x, 'e) env"
  assumes "benign env" and "live s"
  shows "sound (fst (startTasks env s))"
proof -
  obtain t0 s0 where 0: "startTask env s = (t0 :: (experienceNode list, 'x list) task, s0)"
    by (cases "startTask env s :: (experienceNode list, 'x list) task \<times> state")
  obtain t1 s1 where 1: "startTask env s0 = (t1 :: ('e list, 'e list) task, s1)"
    by (cases "startTask env s0 :: ('e list, 'e list) task \<times> state")
  obtain t2 s2 where 2: "startTask env s1 = (t2 :: (skillNode list, Skill list) task, s2)"
    by (cases "startTask env s1 :: (skillNode list, Skill list) task \<times> state")
  from startTask_calm[OF 0] assms(2) have l0: "live s0" by (rule calm_live)
  from startTask_calm[OF 1] l0 have l1: "live s1" by (rule calm_live)
  have "\<not> doomed (fst (startTask env s :: (experienceNode list, 'x list) task \<times> state))"
    by (rule startTask_sound[OF assms])
  with 0 have "\<not> doomed t0" by simp
  moreover have "\<not> doomed (fst (startTask env s0 :: ('e list, 'e list) task \<times> state))"
    by (rule startTask_sound[OF assms(1) l0])
  with 1 have "\<not> doomed t1" by simp
  moreover have "\<not> doomed (fst (startTask env s1 :: (skillNode list, Skill list) task \<times> state))"
    by (rule startTask_sound[OF assms(1) l1])
  with 2 have "\<not> doomed t2" by simp
  ultimately show ?thesis using 0 1 2 by (simp add: startTasks_def sound_def)
qed

lemma detailPages_runs:
  assumes "benign env" and "live s"
  shows "\<exists>v ts k s'. detailPages env pu s = ((Inr v, ts, k), s')"
proof -
  obtain ts0 s0 where st: "startTasks env s = (ts0, s0)" by (cases "startTasks env s")
  with startTasks_sound[OF assms] have "sound ts0" by simp
  from awaitAll_runs[OF assms(1) this, of pu "now s" 0 s0] st show ?thesis
    by (simp add: detailPages_def)
qed

lemma primaryPage_runs:
  assumes "benign env" and "live s"
  shows "\<exists>y s'. primaryPage env pu s = (Inr y, s')"
proof -
  from createPage_runs[OF assms] obtain p s1 where 1: "createPage env s = (Inr p, s1)" by blast
  from goto_runs[OF assms(1)] obtain f s2
    where 2: "goto env p pu DomContentLoaded (Some (timeout (options s1))) s1 = (Inr f, s2)" by blast
  from autoScroll_runs[OF assms(1)] obtain s3 where 3: "autoScroll env p s2 = (Inr (), s3)" by blast
  from evaluate_runs[of "profileResult env" s3 p] assms(1)
  obtain pr s4 where 4: "evaluate (profileResult env) p s3 = (Inr pr, s4)" by (auto simp: benign_def)
  from evaluate_runs[of "volunteeringNodes env" s4 p] assms(1)
  obtain vn s5 where 5: "evaluate (volunteeringNodes env) p s4 = (Inr vn, s5)" by (auto simp: benign_def)
  show ?thesis using 1 2 3 4 5
    by (simp add: primaryPage_def andThen_def ok_def gets_def getProfile_def getVolunteering_def)
qed

text \<open>close, called with no page on a state whose browser field is set.\<close>

lemma close_None:
  assumes "browser s = Some b"
  shows "\<exists>r s' rest. close env None s = (r, s') \<and> trace s' = trace s @ BrowserClose b # rest \<and>
           (case browserCloseFails env (length (trace s)) of
              Some m \<Rightarrow> r = Inl (EngineError m)
            | None \<Rightarrow> r = Inr () \<and> b \<notin> set (alive s'))"
  using assms
  by (auto simp: close_def closePageStep_def closeBrowserStep_def browserClose_def treeKill_def
      settled_def emit_def now_def split: option.splits bool.splits)

lemma close_Some_Inr:
  assumes "close env (Some p) s = (Inr x, s')" and "browser s = Some b"
  shows "browser s' = Some b \<and> b \<notin> set (alive s') \<and> launched s' = launched s \<and>
         options s' = options s \<and> (\<exists>rest. trace s' = trace s @ PageClose p # BrowserClose b # rest)"
  using assms
  by (auto simp: close_def closePageStep_def closeBrowserStep_def browserClose_def treeKill_def
      pageClose_def answer_def settled_def emit_def now_def split: option.splits bool.splits if_splits)

lemma close_runs:
  assumes "benign env"
  shows "\<exists>s'. close env pg s = (Inr (), s')"
  using assms
  by (auto simp: close_def closePageStep_def closeBrowserStep_def browserClose_def treeKill_def
      pageClose_def answer_def settled_def emit_def now_def benign_def split: option.splits bool.splits if_splits prod.splits)

lemma dispose_runs: "benign env \<Longrightarrow> \<exists>s'. dispose env page s = (Inr (), s')"
  using close_runs[of env "Some page" s] pageClose_runs[of env page s]
  by (auto simp: dispose_def andThen_def gets_def)

lemma run_runs:
  assumes "benign env" and "live s" and "pu \<noteq> []" and "includesStr pu ''linkedin.com/''"
  shows "\<exists>y s'. run env pu s = (Inr y, s')"
proof -
  from primaryPage_runs[OF assms(1,2)] obtain page pr vol s1
    where 1: "primaryPage env pu s = (Inr (page, pr, vol), s1)" by (metis prod_cases3)
  from primaryPage_calm[OF 1] assms(2) have "live s1" by (auto dest: calm_live)
  from detailPages_runs[OF assms(1) this] obtain xs es sk ts k s2
    where 2: "detailPages env pu s1 = ((Inr (xs, es, sk), ts, k), s2)" by (metis prod_cases3)
  from dispose_runs[OF assms(1)] obtain s3 where 3: "dispose env page s2 = (Inr (), s3)" by blast
  from 1 2 3 have "\<exists>y. runBody env pu s = ((Inr y, None), s3)" by (simp add: runBody_def)
  with assms show ?thesis by (auto simp: run_def live_def split: option.splits)
qed

lemma run_result: "\<exists>r s'. run env pu s = (r, s')"
  by (cases "run env pu s") auto

lemma run_dead:
  assumes "browser s = Some b" and "b \<notin> set (alive s)"
  shows "\<exists>e s'. run env pu s = (Inl e, s')"
proof -
  obtain r s' where r: "run env pu s = (r, s')" by (cases "run env pu s")
  show ?thesis
  proof (cases r)
    case (Inl e)
    with r show ?thesis by blast
  next
    case (Inr res)
    with r run_success_shape[of env pu s res s'] assms show ?thesis by auto
  qed
qed

subsection \<open>The catch block of run\<close>

lemma closeThenThrow_result:
  "closeThenThrow env err b r s = (e, s') \<Longrightarrow> e = (case r of Inl d \<Rightarrow> d | Inr x \<Rightarrow> err)"
  by (auto simp: closeThenThrow_def afterBrowserClose_def settled_def treeKill_def
      split: sum.splits prod.splits option.splits if_splits bool.splits)

lemma awaitClose_result:
  "awaitClose env pu t0 k ts err b r s = (e, s') \<Longrightarrow> e = (case r of Inl d \<Rightarrow> d | Inr x \<Rightarrow> err)"
proof (induction env pu t0 k ts err b r s rule: awaitClose.induct)
  case (1 env pu t0 k ts err b r s)
  show ?case
  proof (cases "schedule env t0 k mod 4 \<noteq> 3 \<and> isPending ts (schedule env t0 k mod 4)")
    case False
    with "1.prems" have "closeThenThrow env err b r s = (e, s')"
      by (auto simp: awaitClose.simps[of env pu t0 k])
    then show ?thesis by (rule closeThenThrow_result)
  next
    case True
    obtain ts1 s1 where st: "resumeTask env pu (schedule env t0 k mod 4) ts s = (ts1, s1)"
      by (cases "resumeTask env pu (schedule env t0 k mod 4) ts s")
    with True "1.prems" have "awaitClose env pu t0 (Suc k) ts1 err b r s1 = (e, s')"
      by (simp add: awaitClose.simps[of env pu t0 k])
    from "1.IH"[OF True st[symmetric] this] show ?thesis .
  qed
qed

text \<open>
  Entered out of the wait, the catch block asks the browser to close first thing. What
  \<open>run\<close> throws is the error of that close if it fails, and the error caught otherwise;
  in that case the browser is down.
\<close>

lemma catchInRun_waiting:
  assumes "browser s = Some b" and "catchInRun env pu (Some (ts, t0, k)) err s = (r, s')"
  shows "(\<exists>rest. trace s' = trace s @ BrowserClose b # rest) \<and>
         (case browserCloseFails env (length (trace s)) of
            Some m \<Rightarrow> r = Inl (EngineError m)
          | None \<Rightarrow> r = Inl err \<and> b \<notin> set (alive s'))"
proof -
  obtain rc s1 where bc: "browserClose env b s = (rc, s1)" by (cases "browserClose env b s")
  obtain e s2 where ac: "awaitClose env pu t0 k ts err b rc s1 = (e, s2)"
    by (cases "awaitClose env pu t0 k ts err b rc s1")
  from assms bc ac have r: "r = Inl e" "s' = s2" by (simp_all add: catchInRun_def)
  from bc have t1: "trace s1 = trace s @ [BrowserClose b]"
    and rc: "rc = (case browserCloseFails env (length (trace s)) of
                     Some m \<Rightarrow> Inl (EngineError m) | None \<Rightarrow> Inr ())"
    and a1: "browserCloseFails env (length (trace s)) = None \<longrightarrow> b \<notin> set (alive s1)"
    by (auto simp: browserClose_def emit_def now_def split: option.splits)
  from awaitClose_steps[OF ac] obtain evs where t2: "trace s2 = trace s1 @ evs"
    and a2: "set (alive s2) \<subseteq> set (alive s1)"
    by (auto simp: steps_def)
  from t1 t2 r have "\<exists>rest. trace s' = trace s @ BrowserClose b # rest" by simp
  moreover from awaitClose_result[OF ac] rc r a1 a2
  have "case browserCloseFails env (length (trace s)) of
            Some m \<Rightarrow> r = Inl (EngineError m)
          | None \<Rightarrow> r = Inl err \<and> b \<notin> set (alive s')"
    by (auto split: option.splits)
  ultimately show ?thesis by blast
qed

text \<open>With no task left waiting, the catch block is \<^verbatim>\<open>await this.close(); throw err\<close> as it reads.\<close>

lemma awaitClose_idle:
  assumes "\<not> isPending ts 0" and "\<not> isPending ts 1" and "\<not> isPending ts 2"
  shows "awaitClose env pu t0 k ts err b r s = closeThenThrow env err b r s"
proof -
  have "\<not> isPending ts i" for i
    using assms by (auto simp: isPending_def)
  then show ?thesis by (simp add: awaitClose.simps[of env pu t0 k])
qed

lemma catchInRun_idle:
  assumes "\<not> isPending ts 0" and "\<not> isPending ts 1" and "\<not> isPending ts 2"
  shows "catchInRun env pu (Some (ts, t0, k)) err s = catchInRun env pu None err s"
proof (cases "browser s")
  case None
  then show ?thesis
    by (simp add: catchInRun_def andThen_def close_def closePageStep_def closeBrowserStep_def
        settled_def throw_def)
next
  case (Some b)
  obtain rc s1 where bc: "browserClose env b s = (rc, s1)" by (cases "browserClose env b s")
  obtain c l s2 where ab: "afterBrowserClose env b rc s1 = ((c, l), s2)"
    by (cases "afterBrowserClose env b rc s1") auto
  have ac: "awaitClose env pu t0 k ts err b rc s1 = closeThenThrow env err b rc s1"
    by (rule awaitClose_idle[OF assms])
  from Some bc ab show ?thesis
    by (cases "settled (c @ Resolve # l)")
       (simp_all add: catchInRun_def andThen_def close_def closePageStep_def
         closeBrowserStep_split closeThenThrow_def throw_def ac)
qed

subsection \<open>A task on its own\<close>

text \<open>
  A task that is given its answers one after the other, with nothing in between, is the
  extractor run from its first line to its last: five answers settle it, with the result
  and in the state of the sequential reading.
\<close>

lemma newPage_browser: "newPage env b s = (r, s') \<Longrightarrow> browser s' = browser s"
  by (drule newPage_steps) (simp add: steps_def)

lemma setupPage_browser: "setupPage env p s = (r, s') \<Longrightarrow> browser s' = browser s"
  by (drule setupPage_steps) (simp add: steps_def)

lemma catchInCreatePage_alone:
  assumes "browser s = Some b"
  shows "\<exists>e' s'. case_prod (resume env u y f) (catchInCreatePage env err s) = (Settled (Inl e'), s') \<and>
           andThen (close env None) (\<lambda>_. throw err) s = (Inl e' :: error + nat, s')"
proof -
  obtain rc s1 where bc: "browserClose env b s = (rc, s1)" by (cases "browserClose env b s")
  obtain c l s2 where ab: "afterBrowserClose env b rc s1 = ((c, l), s2)"
    by (cases "afterBrowserClose env b rc s1") auto
  from assms bc ab show ?thesis
    by (cases "settled (c @ Resolve # l)")
       (simp_all add: catchInCreatePage_def resume_def closeThenThrow_def andThen_def close_def
         closePageStep_def closeBrowserStep_split throw_def)
qed

lemma resume_Settled: "case_prod (resume env u y f) (Settled r, s) = (Settled r, s)"
  by (simp add: resume_def)

lemma five: "(F ^^ 5) x = F (F (F (F (F x))))"
  by (simp add: eval_nat_numeral)

lemma task_alone:
  "(case_prod (resume env u y f) ^^ 5) (startTask env s) =
     (case andThen (createPage env) (\<lambda>page.
           andThen (goto env page u NetworkIdle2 None) (\<lambda>_.
           andThen (evaluate y page) (\<lambda>nodes.
           andThen (pageClose env page) (\<lambda>_. ok (f nodes))))) s of
        (r, s') \<Rightarrow> (Settled r, s'))"
proof (cases "browser s")
  case None
  then have st: "startTask env s = (Settled (Inl (Error ''Browser not set.'')), s)"
    by (simp add: startTask_def)
  from None show ?thesis
    unfolding five st resume_Settled by (simp add: createPage_def andThen_def)
next
  case (Some b)
  obtain r1 s1 where np: "newPage env b s = (r1, s1)" by (cases "newPage env b s")
  from newPage_browser[OF np] Some have b1: "browser s1 = Some b" by simp
  from Some np have st: "startTask env s = (AwaitNewPage r1, s1)" by (simp add: startTask_def)
  show ?thesis
  proof (cases r1)
    case (Inl e)
    from catchInCreatePage_alone[OF b1, of env u y f e] obtain e' s'
      where c: "case_prod (resume env u y f) (catchInCreatePage env e s1) = (Settled (Inl e'), s')"
        and cl: "andThen (close env None) (\<lambda>_. throw e) s1 = (Inl e' :: error + nat, s')"
      by blast
    have 1: "case_prod (resume env u y f) (AwaitNewPage r1, s1) = catchInCreatePage env e s1"
      using Inl by (simp add: resume_def)
    have l: "(case_prod (resume env u y f) ^^ 5) (startTask env s) = (Settled (Inl e'), s')"
      unfolding five st 1 c resume_Settled ..
    from Some np Inl cl have "createPage env s = (Inl e', s')"
      by (simp add: createPage_def tryCatch_def andThen_def[of "newPage env b"])
    then show ?thesis unfolding l by (simp add: andThen_def)
  next
    case (Inr page)
    obtain r2 s2 where sp: "setupPage env page s1 = (r2, s2)" by (cases "setupPage env page s1")
    from setupPage_browser[OF sp] b1 have b2: "browser s2 = Some b" by simp
    have 1: "case_prod (resume env u y f) (AwaitNewPage r1, s1) = (AwaitSetupPage page r2, s2)"
      using Inr sp by (simp add: resume_def)
    show ?thesis
    proof (cases r2)
      case (Inl e)
      from catchInCreatePage_alone[OF b2, of env u y f e] obtain e' s'
        where c: "case_prod (resume env u y f) (catchInCreatePage env e s2) = (Settled (Inl e'), s')"
          and cl: "andThen (close env None) (\<lambda>_. throw e) s2 = (Inl e' :: error + nat, s')"
        by blast
      have 2: "case_prod (resume env u y f) (AwaitSetupPage page r2, s2) = catchInCreatePage env e s2"
        using Inl by (simp add: resume_def)
      have l: "(case_prod (resume env u y f) ^^ 5) (startTask env s) = (Settled (Inl e'), s')"
        unfolding five st 1 2 c resume_Settled ..
      from Some np Inr sp Inl cl have "createPage env s = (Inl e', s')"
        by (simp add: createPage_def tryCatch_def andThen_def[of "newPage env b"]
            andThen_def[of "setupPage env page"])
      then show ?thesis unfolding l by (simp add: andThen_def)
    next
      case r2: (Inr x)
      have cp: "createPage env s = (Inr page, s2)"
        using Some np Inr sp r2 by (simp add: createPage_def andThen_def tryCatch_def ok_def)
      obtain r3 s3 where g: "goto env page u NetworkIdle2 None s2 = (r3, s3)"
        by (cases "goto env page u NetworkIdle2 None s2")
      obtain r4 s4 where ev: "evaluate y page s3 = (r4, s4)" by (cases "evaluate y page s3")
      obtain r5 s5 where pc: "pageClose env page s4 = (r5, s5)" by (cases "pageClose env page s4")
      from r2 cp g ev pc show ?thesis
        unfolding five st 1
        by (cases r3; cases r4; cases r5) (simp_all add: andThen_def ok_def resume_def)
    qed
  qed
qed

lemma getExperiences_alone:
  "(case_prod (resume env (pu @ ''/details/experience'') (experienceNodes env)
       (map (\<lambda>node. normExperience env (rawExperience node))) ) ^^ 5) (startTask env s) =
     (case getExperiences env pu s of (r, s') \<Rightarrow> (Settled r, s'))"
  unfolding getExperiences_def by (rule task_alone)

lemma getEducation_alone:
  "(case_prod (resume env (pu @ ''/details/education'') (educationResult env)
       (\<lambda>educations. educations)) ^^ 5) (startTask env s) =
     (case getEducation env pu s of (r, s') \<Rightarrow> (Settled r, s'))"
  unfolding getEducation_def by (rule task_alone)

lemma getSkills_alone:
  "(case_prod (resume env (pu @ ''/details/skills'') (skillNodes env)
       (map (skillOfNode (parseInt env)))) ^^ 5) (startTask env s) =
     (case getSkills env pu s of (r, s') \<Rightarrow> (Settled r, s'))"
  unfolding getSkills_def by (rule task_alone)

subsection \<open>Substrings, successful runs, errors\<close>

lemma includesStr_iff: "includesStr s t \<longleftrightarrow> (\<exists>a b. s = a @ t @ b)"
proof (induction s)
  case Nil
  then show ?case by auto
next
  case (Cons c cs)
  have "startsWith (c # cs) t \<longleftrightarrow> (\<exists>b. c # cs = t @ b)"
    unfolding startsWith_def by (metis append_eq_conv_conj append_take_drop_id)
  moreover have "(\<exists>a b. c # cs = a @ t @ b) \<longleftrightarrow> (\<exists>b. c # cs = t @ b) \<or> (\<exists>a b. cs = a @ t @ b)"
  proof
    assume "\<exists>a b. c # cs = a @ t @ b"
    then obtain a b where ab: "c # cs = a @ t @ b" by blast
    show "(\<exists>b. c # cs = t @ b) \<or> (\<exists>a b. cs = a @ t @ b)"
    proof (cases a)
      case Nil
      with ab show ?thesis by auto
    next
      case (Cons x a')
      with ab have "cs = a' @ t @ b" by simp
      then show ?thesis by blast
    qed
  next
    assume "(\<exists>b. c # cs = t @ b) \<or> (\<exists>a b. cs = a @ t @ b)"
    then show "\<exists>a b. c # cs = a @ t @ b"
    proof
      assume "\<exists>b. c # cs = t @ b"
      then obtain b where "c # cs = [] @ t @ b" by auto
      then show ?thesis by blast
    next
      assume "\<exists>a b. cs = a @ t @ b"
      then obtain a b where "c # cs = (c # a) @ t @ b" by auto
      then show ?thesis by blast
    qed
  qed
  ultimately show ?case using Cons.IH by simp
qed


lemma checkIfLoggedIn_steps:
  assumes "checkIfLoggedIn env s = (r, s')"
  shows "steps s s'"
proof -
  have tail: "steps s1 s2"
    if "andThen (pageClose env page) (\<lambda>_.
         if \<not> endsWith final ''/login'' then ok ()
         else throw (SessionExpired notLoggedInMessage)) s1 = (r2, s2)" for page final s1 r2 s2
    using that
    by (rule andThen_steps0) (auto dest: pageClose_steps ok_steps throw_steps split: if_splits)
  have mid: "steps s1 s2"
    if "andThen (goto env page loginUrl DomContentLoaded t) (\<lambda>final.
        andThen (pageClose env page) (\<lambda>_.
         if \<not> endsWith final ''/login'' then ok ()
         else throw (SessionExpired notLoggedInMessage))) s1 = (r2, s2)" for page t s1 r2 s2
    using that by (rule andThen_steps) (auto dest: goto_steps tail)
  have mid': "steps s1 s2"
    if "andThen (gets options) (\<lambda>opts.
        andThen (goto env page loginUrl DomContentLoaded (Some (timeout opts))) (\<lambda>final.
        andThen (pageClose env page) (\<lambda>_.
         if \<not> endsWith final ''/login'' then ok ()
         else throw (SessionExpired notLoggedInMessage)))) s1 = (r2, s2)" for page s1 r2 s2
    using that mid[of page "Some (timeout (options s1))" s1 r2 s2]
    by (simp add: andThen_def gets_def)
  show ?thesis
    using assms unfolding checkIfLoggedIn_def
    by (rule andThen_steps) (use mid' in \<open>auto dest: createPage_steps\<close>)
qed

lemma close_error:
  "close env pg s = (Inl e, s') \<Longrightarrow> \<exists>m. e = EngineError m"
  by (auto simp: close_def closePageStep_def closeBrowserStep_def browserClose_def treeKill_def
      pageClose_def answer_def settled_def split: option.splits bool.splits if_splits prod.splits sum.splits)

lemma createPage_error:
  assumes "createPage env s = (Inl e, s')"
  shows "e = Error ''Browser not set.'' \<or> (\<exists>m. e = EngineError m)"
proof (cases "browser s")
  case None
  with assms show ?thesis by (simp add: createPage_def)
next
  case (Some b)
  let ?m = "andThen (newPage env b) (\<lambda>page. andThen (setupPage env page) (\<lambda>_. ok page))"
  obtain r1 s1 where m: "?m s = (r1, s1)" by (cases "?m s")
  show ?thesis
  proof (cases r1)
    case (Inr p)
    with m Some assms show ?thesis by (simp add: createPage_def tryCatch_def)
  next
    case (Inl e1)
    with m have e1: "\<exists>m. e1 = EngineError m"
      by (auto simp: andThen_def newPage_def setupPage_def answer_def ok_def Let_def
          split: option.splits if_splits prod.splits sum.splits)
    from Inl m Some assms have "andThen (close env None) (\<lambda>_. throw e1) s1 = (Inl e :: error + nat, s')"
      by (simp add: createPage_def tryCatch_def)
    then have "e = e1 \<or> (\<exists>s2. close env None s1 = (Inl e, s2))"
      by (auto simp: andThen_def throw_def split: prod.splits sum.splits)
    with e1 show ?thesis by (auto dest: close_error)
  qed
qed

subsection \<open>Evaluating the examples\<close>

lemmas model_defs =
  run_def runBody_def catchInRun_def primaryPage_def dispose_def detailPages_def
  awaitAll.simps awaitClose.simps startTasks_def startTask_def resumeTask_def resume_def
  catchInCreatePage_def closeThenThrow_def afterBrowserClose_def rejected_def fulfilled_def
  isPending_def chosen_def
  getExperiences_def getEducation_def getSkills_def getProfile_def getVolunteering_def
  setupScraper_def checkIfLoggedIn_def createPage_def close_def closePageStep_def
  closeBrowserStep_def settled_def puppeteerLaunch_def newPage_def setupPage_def goto_def
  autoScroll_def evaluate_def pageClose_def browserClose_def treeKill_def setBrowser_def
  andThen_def tryCatch_def ok_def throw_def gets_def emit_def now_def answer_def
  Let_def

lemmas example_defs =
  exampleEnv_def expiredEnv_def skillsTimeoutEnv_def raceEnv_def closeFailsEnv_def
  pageGoneEnv_def expiredCloseFailsEnv_def killFailsEnv_def newState_def
  readyState_def keepAliveState_def expiredState_def strandedState_def setupTrace_def
  exampleOptions_def exampleUrl_def loginUrl_def

lemma exampleUrl_valid: "exampleUrl \<noteq> []" "includesStr exampleUrl ''linkedin.com/''"
  by (simp_all add: exampleUrl_def startsWith_def)

lemma benign_exampleEnv: "benign exampleEnv"
  by (simp add: benign_def exampleEnv_def)

lemma endorsedSkill_scraped:
  "skillOfNode jsParseInt endorsedSkill =
     \<lparr> skillName = Some (js ''Isabelle''), endorsementCount = Some (Num 12) \<rparr>"
  by (simp add: skillOfNode_def endorsedSkill_def trim_def js_def isWhiteSpace_def orNull_def
      jsParseInt_def signed_def numeralOf_def toDouble_def isRadixDigit_def digitOf_def)

subsection \<open>Login verification\<close>

lemma checkIfLoggedIn_result:
  assumes "createPage env s = (Inr page, s1)"
    and "gotoResult env (length (trace s1)) loginUrl = Inr final"
  shows "checkIfLoggedIn env s =
     (case pageCloseFails env (Suc (length (trace s1))) of
        Some m \<Rightarrow> Inl (EngineError m)
      | None \<Rightarrow>
          if endsWith final ''/login'' then Inl (SessionExpired notLoggedInMessage) else Inr (),
      s1 \<lparr> trace := trace s1 @
             [Goto page loginUrl DomContentLoaded (Some (timeout (options s1))),
              PageClose page] \<rparr>)"
  using assms
  by (simp add: checkIfLoggedIn_def andThen_def gets_def goto_def pageClose_def answer_def
      emit_def now_def ok_def throw_def split: option.splits)

lemma checkIfLoggedIn_SessionExpiredD:
  assumes "checkIfLoggedIn env s = (Inl (SessionExpired m), s')"
  shows "\<exists>page s1 final. createPage env s = (Inr page, s1) \<and>
           gotoResult env (length (trace s1)) loginUrl = Inr final \<and>
           endsWith final ''/login'' \<and>
           pageCloseFails env (Suc (length (trace s1))) = None \<and>
           trace s' = trace s1 @
             [Goto page loginUrl DomContentLoaded (Some (timeout (options s1))),
              PageClose page]"
proof -
  obtain r1 s1 where cp: "createPage env s = (r1, s1)" by (cases "createPage env s")
  show ?thesis
  proof (cases r1)
    case (Inl e)
    with cp assms have "e = SessionExpired m" by (simp add: checkIfLoggedIn_def andThen_def)
    with createPage_error[of env s e s1] cp Inl show ?thesis by auto
  next
    case (Inr page)
    show ?thesis
    proof (cases "gotoResult env (length (trace s1)) loginUrl")
      case (Inl msg)
      with cp Inr assms show ?thesis
        by (simp add: checkIfLoggedIn_def andThen_def gets_def goto_def now_def)
    next
      case g: (Inr final)
      with cp Inr assms show ?thesis
        by (auto simp: checkIfLoggedIn_def andThen_def gets_def goto_def pageClose_def
            answer_def emit_def now_def ok_def throw_def split: option.splits if_splits)
    qed
  qed
qed

lemma setup_SessionExpiredD:
  assumes "setupScraper env s = (Inl (SessionExpired m), s')"
  shows "\<exists>b. browser s' = Some b \<and> b \<notin> set (alive s')"
proof -
  let ?body = "andThen (puppeteerLaunch env) (\<lambda>b. andThen (setBrowser b) (\<lambda>_. checkIfLoggedIn env))"
  obtain r1 s1 where body: "?body s = (r1, s1)" by (cases "?body s")
  show ?thesis
  proof (cases r1)
    case (Inr x)
    with body assms show ?thesis by (simp add: setupScraper_def tryCatch_def)
  next
    case (Inl e)
    with body assms have h: "andThen (close env None) (\<lambda>_. throw e) s1 = (Inl (SessionExpired m) :: error + unit, s')"
      by (simp add: setupScraper_def tryCatch_def)
    obtain r2 s2 where cl: "close env None s1 = (r2, s2)" by (cases "close env None s1")
    have r2: "r2 = Inr ()" and e: "e = SessionExpired m" and s2: "s2 = s'"
      using h cl close_error[of env None s1 _ s2]
      by (cases r2; auto simp: andThen_def throw_def)+
    \<comment> \<open>the launch succeeded, so the browser field is set\<close>
    obtain rl sl where l: "puppeteerLaunch env s = (rl, sl)" by (cases "puppeteerLaunch env s")
    have "\<exists>b. browser s1 = Some b"
    proof (cases rl)
      case (Inl el)
      with l have "\<exists>m. el = EngineError m"
        by (auto simp: puppeteerLaunch_def Let_def split: option.splits)
      with Inl l body \<open>r1 = Inl e\<close> e show ?thesis by (auto simp: andThen_def)
    next
      case (Inr b)
      with l body have c: "checkIfLoggedIn env (sl\<lparr>browser := Some b\<rparr>) = (r1, s1)"
        by (simp add: andThen_def setBrowser_def)
      from checkIfLoggedIn_steps[OF c] show ?thesis by (simp add: steps_def)
    qed
    then obtain b where b: "browser s1 = Some b" by blast
    from close_None[OF b, of env] cl r2 s2 have "b \<notin> set (alive s')"
      by (auto split: option.splits)
    moreover from close_steps[OF cl] b s2 have "browser s' = Some b" by (simp add: steps_def)
    ultimately show ?thesis by blast
  qed
qed

section \<open>The constructor\<close>

lemma namedField_simps:
  "namedField (optionError ''sessionCookieValue'' ''is required.'') = Some FSessionCookieValue"
  "namedField (optionError ''sessionCookieValue'' ''needs to be a string.'') = Some FSessionCookieValue"
  "namedField (optionError ''userAgent'' ''needs to be a string.'') = Some FUserAgent"
  "namedField (optionError ''keepAlive'' ''needs to be a boolean.'') = Some FKeepAlive"
  "namedField (optionError ''timeout'' ''needs to be a number.'') = Some FTimeout"
  "namedField (optionError ''headless'' ''needs to be a boolean.'') = Some FHeadless"
  by (simp_all add: namedField_def optionError_def quoted_def)

lemma rejectedField_firstInvalid: "rejectedField u = firstInvalid u"
  by (simp add: rejectedField_def constructor_def firstInvalid_def wronglyTyped_def
      namedField_simps)

lemma throws_firstInvalid: "throws u \<longleftrightarrow> firstInvalid u \<noteq> None"
  by (simp add: throws_def constructor_def firstInvalid_def wronglyTyped_def)

lemma typedOrOmitted_getProp:
  "typedOrOmitted ty f \<Longrightarrow> ty \<noteq> ''undefined'' \<Longrightarrow>
     getProp f = JUndefined \<or> typeof (getProp f) = ty"
  by (cases f) (auto simp: typedOrOmitted_def getProp_def)

lemma constructor_valid:
  assumes "u_sessionCookieValue u = Some (JStr tok)" and "tok \<noteq> []"
    and "typedOrOmitted ''string'' (u_userAgent u)"
    and "typedOrOmitted ''boolean'' (u_keepAlive u)"
    and "typedOrOmitted ''number'' (u_timeout u)"
    and "typedOrOmitted ''boolean'' (u_headless u)"
  shows "constructor u = Inr (objectAssign defaultOptions u)"
proof -
  have "getProp (u_userAgent u) = JUndefined \<or> typeof (getProp (u_userAgent u)) = ''string''"
    using assms(3) by (rule typedOrOmitted_getProp) simp
  moreover have "getProp (u_keepAlive u) = JUndefined \<or> typeof (getProp (u_keepAlive u)) = ''boolean''"
    using assms(4) by (rule typedOrOmitted_getProp) simp
  moreover have "getProp (u_timeout u) = JUndefined \<or> typeof (getProp (u_timeout u)) = ''number''"
    using assms(5) by (rule typedOrOmitted_getProp) simp
  moreover have "getProp (u_headless u) = JUndefined \<or> typeof (getProp (u_headless u)) = ''boolean''"
    using assms(6) by (rule typedOrOmitted_getProp) simp
  ultimately show ?thesis
    using assms(1,2) by (auto simp: constructor_def getProp_def)
qed

text \<open>
  C7, as the specification states it, fails. The configuration \<open>zeroAgentConfig\<close> has a
  user agent that is a number, so by the stated order (\<open>spec_firstInvalid\<close>) the
  constructor should throw an error naming \<^verbatim>\<open>userAgent\<close>. It returns instead, and the
  number becomes the user agent of the options: the check on the user agent is guarded by
  the truthiness of the value, and zero is falsy.
\<close>

theorem constructor_accepts_falsy_userAgent:
  "spec_firstInvalid zeroAgentConfig = Some FUserAgent \<and>
   rejectedField zeroAgentConfig = None \<and>
   constructor zeroAgentConfig =
     Inr \<lparr> sessionCookieValue = JStr ''token'', keepAlive = JBool False,
           userAgent = JNumber (Num 0), timeout = JNumber (Num 10000),
           headless = JBool True \<rparr>"
  by (simp add: spec_firstInvalid_def rejectedField_def constructor_def zeroAgentConfig_def
      getProp_def wronglyTyped_def objectAssign_def assign_def defaultOptions_def)

text \<open>
  C7, amended. For every configuration the constructor checks, in this order, that the
  token is present (truthy), that the token is a string, that a truthy user agent is a
  string, and that keepAlive, timeout and headless, when not undefined, are a boolean, a
  number and a boolean; it throws the error naming the first field that fails its check
  (\<open>firstInvalid\<close>), and throws in no other case. A configuration with a non-empty
  string token whose optional fields are each left out or of the documented type is
  accepted, and the options are the supplied values, with the defaults (keepAlive false,
  timeout 10000, headless true, the fixed user agent) for the fields left out. The object
  is built without a browser: no browser handle, no launch, no engine call.
\<close>

theorem constructor_validation:
  "rejectedField u = firstInvalid u \<and>
   (throws u \<longleftrightarrow> firstInvalid u \<noteq> None) \<and>
   (\<forall>tok. u_sessionCookieValue u = Some (JStr tok) \<and> tok \<noteq> [] \<and>
          typedOrOmitted ''string'' (u_userAgent u) \<and>
          typedOrOmitted ''boolean'' (u_keepAlive u) \<and>
          typedOrOmitted ''number'' (u_timeout u) \<and>
          typedOrOmitted ''boolean'' (u_headless u) \<longrightarrow>
      constructor u =
        Inr \<lparr> sessionCookieValue = JStr tok,
              keepAlive = (case u_keepAlive u of None \<Rightarrow> JBool False | Some v \<Rightarrow> v),
              userAgent = (case u_userAgent u of None \<Rightarrow> JStr defaultUserAgent | Some v \<Rightarrow> v),
              timeout = (case u_timeout u of None \<Rightarrow> JNumber (Num 10000) | Some v \<Rightarrow> v),
              headless = (case u_headless u of None \<Rightarrow> JBool True | Some v \<Rightarrow> v) \<rparr>) \<and>
   (\<forall>s. construct u = Inr s \<longrightarrow> browser s = None \<and> launched s = 0 \<and> trace s = [])"
proof -
  have valid: "constructor u =
        Inr \<lparr> sessionCookieValue = JStr tok,
              keepAlive = (case u_keepAlive u of None \<Rightarrow> JBool False | Some v \<Rightarrow> v),
              userAgent = (case u_userAgent u of None \<Rightarrow> JStr defaultUserAgent | Some v \<Rightarrow> v),
              timeout = (case u_timeout u of None \<Rightarrow> JNumber (Num 10000) | Some v \<Rightarrow> v),
              headless = (case u_headless u of None \<Rightarrow> JBool True | Some v \<Rightarrow> v) \<rparr>"
    if a: "u_sessionCookieValue u = Some (JStr tok) \<and> tok \<noteq> [] \<and>
          typedOrOmitted ''string'' (u_userAgent u) \<and>
          typedOrOmitted ''boolean'' (u_keepAlive u) \<and>
          typedOrOmitted ''number'' (u_timeout u) \<and>
          typedOrOmitted ''boolean'' (u_headless u)" for tok
  proof -
    from a have "constructor u = Inr (objectAssign defaultOptions u)"
      by (intro constructor_valid) auto
    with a show ?thesis by (simp add: objectAssign_def assign_def defaultOptions_def)
  qed
  have fresh: "browser s = None \<and> launched s = 0 \<and> trace s = []" if "construct u = Inr s" for s
    using that by (auto simp: construct_def split: sum.splits)
  from rejectedField_firstInvalid[of u] throws_firstInvalid[of u] valid fresh
  show ?thesis by blast
qed

theorem constructor_validation_witness:
  "rejectedField badTimeoutConfig = Some FTimeout \<and> throws badTimeoutConfig \<and>
   constructor exampleConfig = Inr exampleOptions \<and>
   (\<exists>s. construct exampleConfig = Inr s \<and> browser s = None \<and> launched s = 0 \<and> trace s = [])"
proof -
  have bad: "firstInvalid badTimeoutConfig = Some FTimeout"
    by (simp add: firstInvalid_def badTimeoutConfig_def getProp_def wronglyTyped_def)
  have good: "u_sessionCookieValue exampleConfig = Some (JStr ''token'') \<and> ''token'' \<noteq> [] \<and>
          typedOrOmitted ''string'' (u_userAgent exampleConfig) \<and>
          typedOrOmitted ''boolean'' (u_keepAlive exampleConfig) \<and>
          typedOrOmitted ''number'' (u_timeout exampleConfig) \<and>
          typedOrOmitted ''boolean'' (u_headless exampleConfig)"
    by (simp add: exampleConfig_def typedOrOmitted_def)
  from constructor_validation[of badTimeoutConfig] bad
  have 1: "rejectedField badTimeoutConfig = Some FTimeout \<and> throws badTimeoutConfig" by simp
  from constructor_validation[of exampleConfig] good
  have 2: "constructor exampleConfig = Inr exampleOptions"
    by (simp add: exampleConfig_def exampleOptions_def)
  then have "construct exampleConfig =
      Inr \<lparr> options = exampleOptions, browser = None, alive = [], launched = 0, nextPage = 0,
            trace = [] \<rparr>"
    by (simp add: construct_def)
  with constructor_validation[of exampleConfig]
  have 3: "\<exists>s. construct exampleConfig = Inr s \<and> browser s = None \<and> launched s = 0 \<and> trace s = []"
    by simp
  from 1 2 3 show ?thesis by simp
qed

section \<open>The request policy\<close>

lemma requestHandler_Abort_iff:
  "requestHandler gh req = Abort \<longleftrightarrow>
     resourceType req \<in> set blockedResources \<or> url req \<in> set blockedUrls \<or>
     (\<exists>h. gh (url req) = Some h \<and> h \<noteq> [] \<and> h \<notin> set allowedHostnames)"
  by (auto simp: requestHandler_def Let_def split: option.splits)

text \<open>
  C4, as the specification states it, fails in its last clause. A stylesheet request for
  the tracking endpoint goes to \<^verbatim>\<open>www.linkedin.com\<close>, a host of the allowlist, and is
  aborted: the denylist of URLs is consulted before the hostname.
\<close>

theorem stylesheet_to_allowlisted_host_aborted:
  "resourceType trackStylesheet = ''stylesheet'' \<and>
   hostnameOfUrl (url trackStylesheet) = Some ''www.linkedin.com'' \<and>
   ''www.linkedin.com'' \<in> set allowedHostnames \<and>
   requestHandler hostnameOfUrl trackStylesheet = Abort"
  by (simp add: trackStylesheet_def trackUrl_def hostnameOfUrl_def allowedHostnames_def
      requestHandler_def blockedResources_def blockedUrls_def)

text \<open>
  C4, amended. Whatever \<^verbatim>\<open>getHostname\<close> computes, a request is aborted exactly when its
  resource type is image, media, font, texttrack or manifest, or its URL is the tracking
  endpoint of the denylist, or its hostname is found, non-empty and not one of the four
  hostnames of the allowlist; every other request continues. In particular a stylesheet
  request to a host of the allowlist continues unless its URL is on the denylist.
\<close>

theorem requestHandler_policy:
  "(requestHandler gh req = Abort \<longleftrightarrow>
      resourceType req \<in> {''image'', ''media'', ''font'', ''texttrack'', ''manifest''} \<or>
      url req = ''https://www.linkedin.com/li/track'' \<or>
      (\<exists>h. gh (url req) = Some h \<and> h \<noteq> [] \<and>
           h \<notin> {''linkedin.com'', ''www.linkedin.com'', ''platform.linkedin.com'',
                 ''realtime.www.linkedin.com''})) \<and>
   (requestHandler gh req \<noteq> Abort \<longrightarrow> requestHandler gh req = Continue) \<and>
   (resourceType req = ''stylesheet'' \<and> url req \<notin> set blockedUrls \<and>
    (\<exists>h. gh (url req) = Some h \<and> h \<in> set allowedHostnames) \<longrightarrow>
      requestHandler gh req = Continue)"
proof (intro conjI impI)
  show "requestHandler gh req = Abort \<longleftrightarrow>
      resourceType req \<in> {''image'', ''media'', ''font'', ''texttrack'', ''manifest''} \<or>
      url req = ''https://www.linkedin.com/li/track'' \<or>
      (\<exists>h. gh (url req) = Some h \<and> h \<noteq> [] \<and>
           h \<notin> {''linkedin.com'', ''www.linkedin.com'', ''platform.linkedin.com'',
                 ''realtime.www.linkedin.com''})"
    unfolding requestHandler_Abort_iff
    by (simp add: blockedResources_def blockedUrls_def allowedHostnames_def)
  show "requestHandler gh req = Continue" if "requestHandler gh req \<noteq> Abort"
    using that by (cases "requestHandler gh req") simp_all
  show "requestHandler gh req = Continue"
    if "resourceType req = ''stylesheet'' \<and> url req \<notin> set blockedUrls \<and>
        (\<exists>h. gh (url req) = Some h \<and> h \<in> set allowedHostnames)"
  proof -
    from that have "requestHandler gh req \<noteq> Abort"
      unfolding requestHandler_Abort_iff by (auto simp: blockedResources_def)
    then show ?thesis by (cases "requestHandler gh req") simp_all
  qed
qed

theorem requestHandler_policy_witness:
  "requestHandler hostnameOfUrl siteStylesheet = Continue \<and>
   requestHandler hostnameOfUrl \<lparr> resourceType = ''image'', url = ''https://www.linkedin.com/a.png'' \<rparr> = Abort \<and>
   requestHandler hostnameOfUrl \<lparr> resourceType = ''script'', url = ''https://ads.example.com/a.js'' \<rparr> = Abort"
proof -
  have "resourceType siteStylesheet = ''stylesheet'' \<and> url siteStylesheet \<notin> set blockedUrls \<and>
        (\<exists>h. hostnameOfUrl (url siteStylesheet) = Some h \<and> h \<in> set allowedHostnames)"
    by (simp add: siteStylesheet_def blockedUrls_def hostnameOfUrl_def allowedHostnames_def)
  with requestHandler_policy[of hostnameOfUrl siteStylesheet]
  have 1: "requestHandler hostnameOfUrl siteStylesheet = Continue" by blast
  from requestHandler_policy[of hostnameOfUrl "\<lparr> resourceType = ''image'', url = ''https://www.linkedin.com/a.png'' \<rparr>"]
  have 2: "requestHandler hostnameOfUrl \<lparr> resourceType = ''image'', url = ''https://www.linkedin.com/a.png'' \<rparr> = Abort"
    by simp
  have "hostnameOfUrl ''https://ads.example.com/a.js'' = Some ''ads.example.com''"
    by (simp add: hostnameOfUrl_def)
  with requestHandler_policy[of hostnameOfUrl "\<lparr> resourceType = ''script'', url = ''https://ads.example.com/a.js'' \<rparr>"]
  have 3: "requestHandler hostnameOfUrl \<lparr> resourceType = ''script'', url = ''https://ads.example.com/a.js'' \<rparr> = Abort"
    by simp
  from 1 2 3 show ?thesis by simp
qed

section \<open>The scraped end date and endorsement count\<close>

lemma present_has_no_margin:
  assumes "toLowerCase p = js ''present''"
  shows "trim p = p"
proof -
  from assms have len: "length p = 7" by (auto simp: toLowerCase_def js_def dest: arg_cong[where f=length])
  then obtain a b c d e f g where p: "p = [a, b, c, d, e, f, g]"
    by (auto simp: length_Suc_conv eval_nat_numeral)
  from assms p have "\<not> isWhiteSpace a" "\<not> isWhiteSpace g"
    by (auto simp: toLowerCase_def js_def isWhiteSpace_def split: if_splits)
  with p show ?thesis by (simp add: trim_def)
qed

lemma endDate_Present:
  assumes "endDatePart el = None \<or>
           (\<exists>p. endDatePart el = Some p \<and>
                (toLowerCase p = js ''present'' \<or> toLowerCase (trim p) = js ''present''))"
  shows "endDate el = js ''Present''"
proof -
  have low: "toLowerCase (trim p) = js ''present''" if "toLowerCase p = js ''present''" for p
    using that present_has_no_margin[OF that] by simp
  from assms show ?thesis
  proof (elim disjE exE conjE)
    assume "endDatePart el = None"
    then show ?thesis by (simp add: endDate_def)
  next
    fix p assume "endDatePart el = Some p" "toLowerCase p = js ''present''"
    with low[of p] show ?thesis by (simp add: endDate_def endDateIsPresent_def)
  next
    fix p assume "endDatePart el = Some p" "toLowerCase (trim p) = js ''present''"
    then show ?thesis by (simp add: endDate_def endDateIsPresent_def)
  qed
qed

lemma no_dateRange: "endDatePart None = None" "\<not> endDateIsPresent None"
  by (simp_all add: endDatePart_def endDateIsPresent_def dateRangeText_def orNull_def)

text \<open>
  C9. In the raw record of an experience entry and of a volunteering entry the end date
  is never null. When the date-range text has no second segment (\<open>endDatePart\<close> is
  null: the text is missing, has no en dash, or nothing follows the dash), or the second
  segment, trimmed or as it stands, lower-cases to \<^verbatim>\<open>present\<close>, the end date is the
  string \<^verbatim>\<open>Present\<close>. For an entry with no date range at all the end date is
  \<^verbatim>\<open>Present\<close> while \<open>endDateIsPresent\<close> is false.
\<close>

theorem endDate_never_null:
  "re_endDate (rawExperience n) \<noteq> None \<and> rv_endDate (rawVolunteering v) \<noteq> None \<and>
   (endDatePart (x_dateRange n) = None \<or>
    (\<exists>p. endDatePart (x_dateRange n) = Some p \<and>
         (toLowerCase p = js ''present'' \<or> toLowerCase (trim p) = js ''present'')) \<longrightarrow>
      re_endDate (rawExperience n) = Some (js ''Present'')) \<and>
   (endDatePart (v_dateRange v) = None \<or>
    (\<exists>p. endDatePart (v_dateRange v) = Some p \<and>
         (toLowerCase p = js ''present'' \<or> toLowerCase (trim p) = js ''present'')) \<longrightarrow>
      rv_endDate (rawVolunteering v) = Some (js ''Present'')) \<and>
   (x_dateRange n = None \<longrightarrow>
      re_endDate (rawExperience n) = Some (js ''Present'') \<and>
      \<not> re_endDateIsPresent (rawExperience n)) \<and>
   (v_dateRange v = None \<longrightarrow>
      rv_endDate (rawVolunteering v) = Some (js ''Present'') \<and>
      \<not> rv_endDateIsPresent (rawVolunteering v))"
  using endDate_Present[of "x_dateRange n"] endDate_Present[of "v_dateRange v"]
    endDate_Present[of None] no_dateRange
  by (auto simp: rawExperience_def rawVolunteering_def)

theorem endDate_never_null_witness:
  "endDatePart (x_dateRange ongoingJob) = Some (js '' PRESENT'') \<and>
   re_endDate (rawExperience ongoingJob) = Some (js ''Present'') \<and>
   re_endDateIsPresent (rawExperience ongoingJob) \<and>
   x_dateRange undatedJob = None \<and>
   re_endDate (rawExperience undatedJob) = Some (js ''Present'') \<and>
   \<not> re_endDateIsPresent (rawExperience undatedJob) \<and>
   rv_endDate (rawVolunteering undatedVolunteering) = Some (js ''Present'') \<and>
   \<not> rv_endDateIsPresent (rawVolunteering undatedVolunteering)"
proof -
  have part: "endDatePart (x_dateRange ongoingJob) = Some (js '' PRESENT'')"
    by (simp add: ongoingJob_def endDatePart_def dateRangeText_def orNull_def js_def enDash_def
        at_def)
  have low: "toLowerCase (trim (js '' PRESENT'')) = js ''present''"
    by (simp add: toLowerCase_def trim_def js_def isWhiteSpace_def)
  have isp: "re_endDateIsPresent (rawExperience ongoingJob)"
    using part low by (simp add: rawExperience_def endDateIsPresent_def)
  have und: "x_dateRange undatedJob = None" "v_dateRange undatedVolunteering = None"
    by (simp_all add: undatedJob_def undatedVolunteering_def)
  from endDate_never_null[of ongoingJob undatedVolunteering] part low und
  have 1: "re_endDate (rawExperience ongoingJob) = Some (js ''Present'') \<and>
           rv_endDate (rawVolunteering undatedVolunteering) = Some (js ''Present'') \<and>
           \<not> rv_endDateIsPresent (rawVolunteering undatedVolunteering)"
    by simp
  from endDate_never_null[of undatedJob undatedVolunteering] und
  have 2: "re_endDate (rawExperience undatedJob) = Some (js ''Present'') \<and>
           \<not> re_endDateIsPresent (rawExperience undatedJob)"
    by simp
  from part isp und 1 2 show ?thesis by simp
qed



section \<open>Validation in run\<close>

text \<open>
  C8, as the specification states it, fails. A \<open>setup\<close> that finds the session expired
  has not succeeded, yet it leaves the browser handle in the object: \<open>close\<close> shuts the
  browser down and never resets the field. The guard of \<open>run\<close> tests the field only, so
  a later \<open>run\<close> passes the validation and asks the engine for a page; it fails with
  the engine's error, not with a validation error, and after engine calls.
\<close>

theorem run_after_expired_setup_is_no_validation_error:
  "setupScraper expiredEnv newState =
     (Inl (SessionExpired notLoggedInMessage), expiredState) \<and>
   run exampleEnv exampleUrl expiredState =
     (Inl (EngineError ''Protocol error (Target.createTarget): Target closed.''),
      expiredState \<lparr> trace := trace expiredState @
          [NewPage 0 1, BrowserClose 0, TreeKill 4242, BrowserClose 0, TreeKill 4242] \<rparr>)"
  using exampleUrl_valid
  by (simp add: model_defs example_defs endsWith_def)

text \<open>
  C8, amended. For every call of \<open>run\<close> where the object holds no browser handle
  (\<open>setup\<close> was never called, or the launch itself failed), or the profile URL is
  empty, or the profile URL does not contain \<^verbatim>\<open>linkedin.com/\<close>, \<open>run\<close> fails with the
  validation error of the first of these checks that applies, and the state is the one it
  started from: no engine call is made, so no page is created and no navigation occurs.
\<close>

theorem run_validation:
  "(browser s = None \<longrightarrow> run env pu s = (Inl browserNotSet, s)) \<and>
   (browser s \<noteq> None \<and> pu = [] \<longrightarrow> run env pu s = (Inl noProfileUrl, s)) \<and>
   (browser s \<noteq> None \<and> pu \<noteq> [] \<and> \<not> includesStr pu ''linkedin.com/'' \<longrightarrow>
      run env pu s = (Inl notLinkedInUrl, s)) \<and>
   (includesStr pu ''linkedin.com/'' \<longleftrightarrow> (\<exists>a b. pu = a @ ''linkedin.com/'' @ b))"
  by (auto simp: run_def includesStr_iff)

theorem run_validation_witness:
  "run exampleEnv exampleUrl newState = (Inl browserNotSet, newState) \<and>
   run exampleEnv [] readyState = (Inl noProfileUrl, readyState) \<and>
   run exampleEnv ''https://example.org/in/example'' readyState = (Inl notLinkedInUrl, readyState)"
proof -
  have 1: "browser newState = None" by (simp add: newState_def)
  have 2: "browser readyState \<noteq> None" by (simp add: readyState_def)
  have 3: "\<not> includesStr ''https://example.org/in/example'' ''linkedin.com/''"
    by (simp add: startsWith_def)
  from run_validation[of newState exampleEnv exampleUrl] 1
  have a: "run exampleEnv exampleUrl newState = (Inl browserNotSet, newState)" by simp
  from run_validation[of readyState exampleEnv "[]"] 2
  have b: "run exampleEnv [] readyState = (Inl noProfileUrl, readyState)" by simp
  from run_validation[of readyState exampleEnv "''https://example.org/in/example''"] 2 3
  have c: "run exampleEnv ''https://example.org/in/example'' readyState = (Inl notLinkedInUrl, readyState)"
    by simp
  from a b c show ?thesis by simp
qed

section \<open>Shutdown\<close>

text \<open>
  What the promise of \<open>close\<close> settles to, for every engine: the error of closing the
  page if that failed; otherwise the error of closing the browser if that failed;
  otherwise it is fulfilled. The answer of \<^verbatim>\<open>treeKill\<close> has no part in it.
\<close>

lemma close_outcome:
  "fst (close env pg s) =
     (case (case pg of None \<Rightarrow> None | Some p \<Rightarrow> pageCloseFails env (length (trace s))) of
        Some m \<Rightarrow> Inl (EngineError m)
      | None \<Rightarrow>
          (case browser s of
             None \<Rightarrow> Inr ()
           | Some b \<Rightarrow>
               (case browserCloseFails env
                       (length (trace s) + (case pg of None \<Rightarrow> 0 | Some p \<Rightarrow> 1)) of
                  Some m \<Rightarrow> Inl (EngineError m)
                | None \<Rightarrow> Inr ())))"
proof -
  obtain c1 s1 where 1: "closePageStep env pg s = (c1, s1)" by (cases "closePageStep env pg s")
  obtain c2 l2 s2 where 2: "closeBrowserStep env s1 = ((c2, l2), s2)"
    by (cases "closeBrowserStep env s1") auto
  have r: "fst (close env pg s) = settled (c1 @ c2 @ [Resolve] @ l2)"
    using 1 2 by (simp add: close_def)
  have p: "c1 = (case (case pg of None \<Rightarrow> None | Some p \<Rightarrow> pageCloseFails env (length (trace s))) of
                  Some m \<Rightarrow> [Reject (EngineError m)] | None \<Rightarrow> [])"
    and s1: "browser s1 = browser s"
      "length (trace s1) = length (trace s) + (case pg of None \<Rightarrow> 0 | Some p \<Rightarrow> 1)"
    using 1
    by (auto simp: closePageStep_def pageClose_def answer_def emit_def now_def
        split: option.splits)
  have b: "c2 = (case browser s1 of None \<Rightarrow> []
                 | Some b \<Rightarrow> (case browserCloseFails env (length (trace s1)) of
                                Some m \<Rightarrow> [Reject (EngineError m)] | None \<Rightarrow> []))"
    using 2
    by (auto simp: closeBrowserStep_def browserClose_def treeKill_def now_def
        split: option.splits if_splits bool.splits)
  show ?thesis
    unfolding r p b s1 by (simp add: settled_def split: option.splits)
qed

text \<open>A failure to close the page does not keep \<open>close\<close> from closing the browser.\<close>

lemma close_attempts_browser:
  assumes "browser s = Some b"
  shows "\<exists>rest. trace (snd (close env (Some p) s)) = trace s @ PageClose p # BrowserClose b # rest"
  using assms
  by (auto simp: close_def closePageStep_def closeBrowserStep_def pageClose_def browserClose_def
      treeKill_def answer_def emit_def split: option.splits bool.splits)

text \<open>
  After a graceful close that succeeded, the process tree of a browser with a pid is killed.
\<close>

lemma close_kills_tree:
  assumes "browser s = Some b" and "browserCloseFails env (length (trace s)) = None"
    and "processPid env b = Some pid" and "pid \<noteq> 0"
  shows "trace (snd (close env None s)) = trace s @ [BrowserClose b, TreeKill pid]"
  using assms
  by (auto simp: close_def closePageStep_def closeBrowserStep_def browserClose_def
      treeKill_def emit_def now_def split: bool.splits)

text \<open>
  C6: failures of the shutdown are to be surfaced to the caller, and one is not. The browser of
  \<open>readyState\<close> has a pid; closing it gracefully succeeds, the process tree is then
  killed, and the kill fails. The callback of \<^verbatim>\<open>treeKill\<close> rejects the promise, but it
  runs after the executor has ended with \<^verbatim>\<open>return resolve()\<close>: the promise is already
  fulfilled, and the caller is not told of the failure.
\<close>

theorem close_resolves_when_kill_fails:
  "treeKillFails killFailsEnv (Suc (length (trace readyState))) \<and>
   close killFailsEnv None readyState =
     (Inr (), readyState \<lparr> alive := [],
                trace := trace readyState @ [BrowserClose 0, TreeKill 4242] \<rparr>)"
  by (simp add: model_defs example_defs)

section \<open>The run as a whole\<close>

text \<open>
  C1, as the specification states it, fails. The engine of \<open>closeFailsEnv\<close> lets the
  navigation to the skills page run into its timeout, after the experiences and the
  education have been scraped, and refuses to close the browser. The catch block of
  \<open>run\<close> awaits \<open>close\<close> before it throws the error caught; \<open>close\<close> is rejected, so
  \<open>run\<close> throws the error of \<open>close\<close>, not the error of the task, and the browser is
  still up: the session is not terminated.
\<close>

theorem run_throws_close_error_when_close_fails:
  "(\<exists>ts k s2.
      detailPages closeFailsEnv exampleUrl (snd (primaryPage closeFailsEnv exampleUrl readyState)) =
        ((Inl (EngineError ''Navigation timeout of 30000 ms exceeded''), ts, k), s2) \<and>
      fulfilment (experiencesTask ts) = Some [] \<and> fulfilment (educationTask ts) = Some []) \<and>
   run closeFailsEnv exampleUrl readyState =
     (Inl (EngineError ''close failed''),
      readyState \<lparr> nextPage := 5, trace := trace readyState @
        [NewPage 0 1, SetupPage 1 (JStr ''agent'') (JStr ''token''),
         Goto 1 exampleUrl DomContentLoaded (Some (JNumber (Num 10000))),
         AutoScroll 1, Evaluate 1, Evaluate 1,
         NewPage 0 2, NewPage 0 3, NewPage 0 4,
         SetupPage 2 (JStr ''agent'') (JStr ''token''),
         Goto 2 (exampleUrl @ ''/details/experience'') NetworkIdle2 None,
         Evaluate 2, PageClose 2,
         SetupPage 3 (JStr ''agent'') (JStr ''token''),
         Goto 3 (exampleUrl @ ''/details/education'') NetworkIdle2 None,
         Evaluate 3, PageClose 3,
         SetupPage 4 (JStr ''agent'') (JStr ''token''),
         Goto 4 (exampleUrl @ ''/details/skills'') NetworkIdle2 None,
         BrowserClose 0] \<rparr>) \<and>
   alive (snd (run closeFailsEnv exampleUrl readyState)) = [0]"
  using exampleUrl_valid
  by (simp add: model_defs example_defs)

text \<open>
  C1, amended. Take a run that passes the validation and whose primary page yields the
  profile and the volunteering entries, and let the wait for the three detail-page tasks
  end with one of them rejected, whatever the other two have produced or are still doing.
  Then \<open>run\<close> returns an error and no result, and the first thing it does is to ask the
  browser to close. When the browser closes, the error returned is the error of the
  rejected task (the first in the order experiences, education, skills) and the browser is
  down; when it refuses to close, the error returned is the engine's error of that close.
\<close>

theorem run_all_or_nothing:
  assumes "browser s = Some b" and "pu \<noteq> []" and "includesStr pu ''linkedin.com/''"
    and prim: "primaryPage env pu s = (Inr (page, pr, vol), s1)"
    and dp: "detailPages env pu s1 = ((r, ts, k), s2)"
    and fails: "rejected ts = Some e"
  shows "\<exists>err s'. run env pu s = (Inl err, s') \<and>
           (\<exists>rest. trace s' = trace s2 @ BrowserClose b # rest) \<and>
           (case browserCloseFails env (length (trace s2)) of
              None \<Rightarrow> err = e \<and> b \<notin> set (alive s')
            | Some m \<Rightarrow> err = EngineError m)"
proof -
  from detailPages_result[OF dp] fails have r: "r = Inl e" by (cases r) auto
  from prim dp r have rb: "runBody env pu s = ((Inl e, Some (ts, now s1, k)), s2)"
    by (simp add: runBody_def)
  from primaryPage_steps[OF prim] detailPages_steps[OF dp] assms(1)
  have b2: "browser s2 = Some b" by (simp add: steps_def)
  obtain rr s' where c: "catchInRun env pu (Some (ts, now s1, k)) e s2 = (rr, s')"
    by (cases "catchInRun env pu (Some (ts, now s1, k)) e s2")
  from assms(1-3) rb c have run: "run env pu s = (rr, s')" by (simp add: run_def)
  from catchInRun_waiting[OF b2 c]
  have t: "\<exists>rest. trace s' = trace s2 @ BrowserClose b # rest"
    and o: "case browserCloseFails env (length (trace s2)) of
              Some m \<Rightarrow> rr = Inl (EngineError m)
            | None \<Rightarrow> rr = Inl e \<and> b \<notin> set (alive s')"
    by simp_all
  show ?thesis
  proof (cases "browserCloseFails env (length (trace s2))")
    case None
    with o run t show ?thesis by auto
  next
    case (Some m)
    with o run t show ?thesis by auto
  qed
qed

theorem run_all_or_nothing_witness:
  "\<exists>s'. run raceEnv exampleUrl readyState =
          (Inl (EngineError ''Navigation timeout of 30000 ms exceeded''), s') \<and>
        0 \<notin> set (alive s') \<and> BrowserClose 0 \<in> set (trace s')"
proof -
  let ?E = raceEnv
  let ?s1 = "snd (primaryPage ?E exampleUrl readyState)"
  let ?d = "detailPages ?E exampleUrl ?s1"
  let ?ts = "fst (snd (fst ?d))"
  let ?err = "EngineError ''Navigation timeout of 30000 ms exceeded''"
  have b: "browser readyState = Some 0" by (simp add: readyState_def)
  have p: "primaryPage ?E exampleUrl readyState = (Inr (1, (), []), ?s1)"
    by (simp add: model_defs example_defs)
  have d: "?d = ((fst (fst ?d), ?ts, snd (snd (fst ?d))), snd ?d)" by simp
  have rej: "rejected ?ts = Some ?err"
    by (simp add: model_defs example_defs)
  have bc: "browserCloseFails ?E (length (trace (snd ?d))) = None"
    by (simp add: example_defs)
  from run_all_or_nothing[OF b exampleUrl_valid p d rej] bc
  obtain err s' rest where "run ?E exampleUrl readyState = (Inl err, s')"
    and "trace s' = trace (snd ?d) @ BrowserClose 0 # rest"
    and "err = ?err" and "0 \<notin> set (alive s')"
    by auto
  then show ?thesis by auto
qed

section \<open>Login verification\<close>

text \<open>
  C5, as the specification states it, fails, in two ways. With the engine of
  \<open>pageGoneEnv\<close> the login page stays on the login URL, but the verification page
  cannot be closed: \<open>checkIfLoggedIn\<close> closes the page before it looks at the URL, and
  throws the engine's error, not \<open>SessionExpired\<close>. With the engine of
  \<open>expiredCloseFailsEnv\<close> the verification fails during \<open>setup\<close>, but the browser
  refuses to close: \<open>setup\<close> throws the error of \<open>close\<close>, the browser stays up with
  its handle in the object, and a later \<open>run\<close> on the same object returns a result.
\<close>

theorem login_verification_fails_when_close_fails:
  "gotoResult pageGoneEnv 2 loginUrl = Inr loginUrl \<and> endsWith loginUrl ''/login'' \<and>
   checkIfLoggedIn pageGoneEnv (newState \<lparr> browser := Some 0, alive := [0] \<rparr>) =
     (Inl (EngineError ''page gone''),
      newState \<lparr> browser := Some 0, alive := [0], nextPage := 1,
        trace := [NewPage 0 0, SetupPage 0 (JStr ''agent'') (JStr ''token''),
                  Goto 0 loginUrl DomContentLoaded (Some (JNumber (Num 10000))), PageClose 0] \<rparr>) \<and>
   setupScraper expiredCloseFailsEnv newState = (Inl (EngineError ''close failed''), strandedState) \<and>
   alive strandedState = [0] \<and>
   (\<exists>res s2. run exampleEnv exampleUrl strandedState = (Inr res, s2))"
  using exampleUrl_valid
  by (simp add: model_defs example_defs endsWith_def endorsedSkill_scraped)

text \<open>
  C5, amended. When the verification page was created and the navigation to the login URL
  ended on a final URL, \<open>checkIfLoggedIn\<close> closes the page as its last engine call; if
  that close fails it throws the engine's error, and otherwise it throws
  \<open>SessionExpired\<close> if the final URL ends in \<^verbatim>\<open>/login\<close> and returns normally if not.
  It throws \<open>SessionExpired\<close> in no other case. When \<open>setup\<close> fails with
  \<open>SessionExpired\<close>, the browser it launched has been closed and every later \<open>run\<close>
  on the same object fails. No \<open>run\<close> launches a browser.
\<close>

theorem login_verification:
  fixes env env2 :: "('p, 'v, 'x, 'e) env"
  shows
  "(\<forall>page s1 final.
      createPage env s = (Inr page, s1) \<and>
      gotoResult env (length (trace s1)) loginUrl = Inr final \<longrightarrow>
      checkIfLoggedIn env s =
        (case pageCloseFails env (Suc (length (trace s1))) of
           Some m \<Rightarrow> Inl (EngineError m)
         | None \<Rightarrow>
             if endsWith final ''/login'' then Inl (SessionExpired notLoggedInMessage)
             else Inr (),
         s1 \<lparr> trace := trace s1 @
                [Goto page loginUrl DomContentLoaded (Some (timeout (options s1))),
                 PageClose page] \<rparr>)) \<and>
   (\<forall>m s'. checkIfLoggedIn env s = (Inl (SessionExpired m), s') \<longrightarrow>
      (\<exists>page s1 final. createPage env s = (Inr page, s1) \<and>
           gotoResult env (length (trace s1)) loginUrl = Inr final \<and>
           endsWith final ''/login'' \<and>
           pageCloseFails env (Suc (length (trace s1))) = None \<and>
           trace s' = trace s1 @
             [Goto page loginUrl DomContentLoaded (Some (timeout (options s1))),
              PageClose page])) \<and>
   (\<forall>m s'. setupScraper env s = (Inl (SessionExpired m), s') \<longrightarrow>
      (\<exists>b. browser s' = Some b \<and> b \<notin> set (alive s')) \<and>
      (\<exists>e s2. run env2 pu s' = (Inl e, s2))) \<and>
   (\<forall>r s2. run env2 pu s = (r, s2) \<longrightarrow> launched s2 = launched s)"
proof (intro conjI allI impI)
  fix page s1 final
  assume "createPage env s = (Inr page, s1) \<and>
      gotoResult env (length (trace s1)) loginUrl = Inr final"
  then show "checkIfLoggedIn env s =
        (case pageCloseFails env (Suc (length (trace s1))) of
           Some m \<Rightarrow> Inl (EngineError m)
         | None \<Rightarrow>
             if endsWith final ''/login'' then Inl (SessionExpired notLoggedInMessage)
             else Inr (),
         s1 \<lparr> trace := trace s1 @
                [Goto page loginUrl DomContentLoaded (Some (timeout (options s1))),
                 PageClose page] \<rparr>)"
    by (intro checkIfLoggedIn_result) auto
next
  fix m s'
  assume "checkIfLoggedIn env s = (Inl (SessionExpired m), s')"
  then show "\<exists>page s1 final. createPage env s = (Inr page, s1) \<and>
           gotoResult env (length (trace s1)) loginUrl = Inr final \<and>
           endsWith final ''/login'' \<and>
           pageCloseFails env (Suc (length (trace s1))) = None \<and>
           trace s' = trace s1 @
             [Goto page loginUrl DomContentLoaded (Some (timeout (options s1))),
              PageClose page]"
    by (rule checkIfLoggedIn_SessionExpiredD)
next
  fix m s'
  assume a: "setupScraper env s = (Inl (SessionExpired m), s')"
  then show "\<exists>b. browser s' = Some b \<and> b \<notin> set (alive s')" by (rule setup_SessionExpiredD)
  from setup_SessionExpiredD[OF a] obtain b where "browser s' = Some b" "b \<notin> set (alive s')"
    by blast
  then show "\<exists>e s2. run env2 pu s' = (Inl e, s2)" by (rule run_dead)
next
  fix r s2
  assume "run env2 pu s = (r, s2)"
  then show "launched s2 = launched s" by (rule run_launched)
qed

theorem login_verification_witness:
  "checkIfLoggedIn exampleEnv (newState \<lparr> browser := Some 0, alive := [0] \<rparr>) =
     (Inr (), newState \<lparr> browser := Some 0, alive := [0], nextPage := 1,
        trace := [NewPage 0 0, SetupPage 0 (JStr ''agent'') (JStr ''token''),
                  Goto 0 loginUrl DomContentLoaded (Some (JNumber (Num 10000))), PageClose 0] \<rparr>) \<and>
   checkIfLoggedIn expiredEnv (newState \<lparr> browser := Some 0, alive := [0] \<rparr>) =
     (Inl (SessionExpired notLoggedInMessage),
      newState \<lparr> browser := Some 0, alive := [0], nextPage := 1,
        trace := [NewPage 0 0, SetupPage 0 (JStr ''agent'') (JStr ''token''),
                  Goto 0 loginUrl DomContentLoaded (Some (JNumber (Num 10000))), PageClose 0] \<rparr>) \<and>
   setupScraper expiredEnv newState = (Inl (SessionExpired notLoggedInMessage), expiredState) \<and>
   0 \<notin> set (alive expiredState) \<and>
   (\<exists>e s2. run exampleEnv exampleUrl expiredState = (Inl e, s2) \<and> launched s2 = 1)"
proof -
  let ?s = "newState \<lparr> browser := Some 0, alive := [0] \<rparr>"
  let ?s1 = "newState \<lparr> browser := Some 0, alive := [0], nextPage := 1,
        trace := [NewPage 0 0, SetupPage 0 (JStr ''agent'') (JStr ''token'')] \<rparr>"
  have cp: "createPage exampleEnv ?s = (Inr 0, ?s1)" "createPage expiredEnv ?s = (Inr 0, ?s1)"
    by (simp_all add: model_defs example_defs)
  have g: "gotoResult exampleEnv (length (trace ?s1)) loginUrl = Inr ''https://www.linkedin.com/feed/''"
    "gotoResult expiredEnv (length (trace ?s1)) loginUrl = Inr loginUrl"
    by (simp_all add: example_defs)
  have pc: "pageCloseFails exampleEnv (Suc (length (trace ?s1))) = None"
    "pageCloseFails expiredEnv (Suc (length (trace ?s1))) = None"
    by (simp_all add: example_defs)
  have e: "\<not> endsWith ''https://www.linkedin.com/feed/'' ''/login''" "endsWith loginUrl ''/login''"
    by (simp_all add: endsWith_def loginUrl_def)
  from login_verification[of exampleEnv ?s exampleEnv exampleUrl] cp g pc e
  have 1: "checkIfLoggedIn exampleEnv ?s =
     (Inr (), newState \<lparr> browser := Some 0, alive := [0], nextPage := 1,
        trace := [NewPage 0 0, SetupPage 0 (JStr ''agent'') (JStr ''token''),
                  Goto 0 loginUrl DomContentLoaded (Some (JNumber (Num 10000))), PageClose 0] \<rparr>)"
    by (simp add: example_defs)
  from login_verification[of expiredEnv ?s exampleEnv exampleUrl] cp g pc e
  have 2: "checkIfLoggedIn expiredEnv ?s =
     (Inl (SessionExpired notLoggedInMessage),
      newState \<lparr> browser := Some 0, alive := [0], nextPage := 1,
        trace := [NewPage 0 0, SetupPage 0 (JStr ''agent'') (JStr ''token''),
                  Goto 0 loginUrl DomContentLoaded (Some (JNumber (Num 10000))), PageClose 0] \<rparr>)"
    by (simp add: example_defs)
  have su: "setupScraper expiredEnv newState = (Inl (SessionExpired notLoggedInMessage), expiredState)"
    by (simp add: model_defs example_defs endsWith_def)
  from login_verification[of expiredEnv newState exampleEnv exampleUrl] su
  obtain e s2 where r: "run exampleEnv exampleUrl expiredState = (Inl e, s2)"
    by blast
  from login_verification[of expiredEnv expiredState exampleEnv exampleUrl] r
  have "launched s2 = launched expiredState" by blast
  with r have 3: "\<exists>e s2. run exampleEnv exampleUrl expiredState = (Inl e, s2) \<and> launched s2 = 1"
    by (simp add: expiredState_def)
  have 4: "0 \<notin> set (alive expiredState)" by (simp add: expiredState_def)
  from 1 2 su 3 4 show ?thesis by simp
qed

text \<open>
  C2. After a \<open>run\<close> that returned a result: if \<open>keepAlive\<close> is truthy, the browser is
  the same and still up, no browser was launched or closed, the last engine call closes
  the primary page (the first page the run created), and a second \<open>run\<close> on a valid URL
  with an engine that answers every call with success returns a result, again without a
  launch; if \<open>keepAlive\<close> is falsy, the primary page and then the browser have been
  closed, the browser is down, and every later \<open>run\<close> fails without a launch.
\<close>

theorem keepAlive_disposition:
  fixes env env2 :: "('p, 'v, 'x, 'e) env"
  assumes "run env pu s = (Inr res, s')"
  shows "(truthy (keepAlive (options s)) \<longrightarrow>
            (\<exists>b. browser s' = Some b \<and> b \<in> set (alive s')) \<and>
            browser s' = browser s \<and> alive s' = alive s \<and> launched s' = launched s \<and>
            (\<exists>b page evs. trace s' = trace s @ NewPage b page # evs @ [PageClose page] \<and>
                          \<not> list_ex isBrowserClose evs) \<and>
            (benign env2 \<and> pu2 \<noteq> [] \<and> includesStr pu2 ''linkedin.com/'' \<longrightarrow>
               (\<exists>res2 s2. run env2 pu2 s' = (Inr res2, s2) \<and> launched s2 = launched s'))) \<and>
         (\<not> truthy (keepAlive (options s)) \<longrightarrow>
            (\<exists>b. browser s' = Some b \<and> b \<notin> set (alive s')) \<and> launched s' = launched s \<and>
            (\<exists>b page evs rest.
               trace s' = trace s @ NewPage b page # evs @ PageClose page # BrowserClose b # rest) \<and>
            (\<exists>e s2. run env2 pu2 s' = (Inl e, s2) \<and> launched s2 = launched s'))"
proof -
  from run_success_shape[OF assms] obtain b page evs s2
    where b: "browser s = Some b" "b \<in> set (alive s)" and c: "calm s s2"
      and t2: "trace s2 = trace s @ NewPage b page # evs" and d: "dispose env page s2 = (Inr (), s')"
    by blast
  from c have fr: "options s2 = options s" "browser s2 = browser s" "alive s2 = alive s"
    "launched s2 = launched s" by (simp_all add: calm_def)
  from calm_no_close[OF c t2] have nc: "\<not> list_ex isBrowserClose evs" by simp
  show ?thesis
  proof (cases "truthy (keepAlive (options s))")
    case True
    with d fr have "pageClose env page s2 = (Inr (), s')"
      by (simp add: dispose_def andThen_def gets_def)
    then have s': "s' = emit (PageClose page) s2"
      by (auto simp: pageClose_def)
    with fr b have live: "live s'" and same: "browser s' = browser s" "alive s' = alive s"
      "launched s' = launched s"
      by (simp_all add: emit_def live_def)
    from s' t2 have tr: "trace s' = trace s @ NewPage b page # evs @ [PageClose page]"
      by (simp add: emit_def)
    have again: "\<exists>res2 s2. run env2 pu2 s' = (Inr res2, s2) \<and> launched s2 = launched s'"
      if "benign env2 \<and> pu2 \<noteq> [] \<and> includesStr pu2 ''linkedin.com/''"
    proof -
      from that live obtain res2 s3 where "run env2 pu2 s' = (Inr res2, s3)"
        using run_runs[of env2 s' pu2] by blast
      with run_launched[OF this] show ?thesis by blast
    qed
    from same b have up: "\<exists>b. browser s' = Some b \<and> b \<in> set (alive s')" by simp
    from tr nc have shape: "\<exists>b page evs. trace s' = trace s @ NewPage b page # evs @ [PageClose page] \<and>
                          \<not> list_ex isBrowserClose evs"
      by blast
    from True up same shape again show ?thesis by simp
  next
    case False
    with d fr have cl: "close env (Some page) s2 = (Inr (), s')"
      by (simp add: dispose_def andThen_def gets_def)
    from fr b have b2: "browser s2 = Some b" by simp
    from close_Some_Inr[OF cl b2] obtain rest where dead: "browser s' = Some b" "b \<notin> set (alive s')"
      and l: "launched s' = launched s2"
      and tr: "trace s' = trace s2 @ PageClose page # BrowserClose b # rest"
      by blast
    from run_dead[OF dead, of env2 pu2] obtain e s3 where r: "run env2 pu2 s' = (Inl e, s3)" by blast
    from tr t2 have "trace s' = trace s @ NewPage b page # evs @ PageClose page # BrowserClose b # rest"
      by simp
    then have shape: "\<exists>b page evs rest.
        trace s' = trace s @ NewPage b page # evs @ PageClose page # BrowserClose b # rest"
      by blast
    from dead have gone: "\<exists>b. browser s' = Some b \<and> b \<notin> set (alive s')" by blast
    from r run_launched[OF r]
    have fail: "\<exists>e s2. run env2 pu2 s' = (Inl e, s2) \<and> launched s2 = launched s'" by blast
    from False gone l fr shape fail show ?thesis by simp
  qed
qed

theorem keepAlive_disposition_witness:
  "truthy (keepAlive (options keepAliveState)) \<and>
   (\<exists>res s' res2 s2.
      run exampleEnv exampleUrl keepAliveState = (Inr res, s') \<and> alive s' = [0] \<and>
      run exampleEnv exampleUrl s' = (Inr res2, s2) \<and> launched s2 = 1) \<and>
   \<not> truthy (keepAlive (options readyState)) \<and>
   (\<exists>res s' e s2.
      run exampleEnv exampleUrl readyState = (Inr res, s') \<and> 0 \<notin> set (alive s') \<and>
      run exampleEnv exampleUrl s' = (Inl e, s2) \<and> launched s2 = 1)"
proof -
  let ?res = "\<lparr> profile = (), experiences = [] :: unit list, education = [] :: unit list,
      volunteering = [] :: unit list,
      skills = [\<lparr> skillName = Some (js ''Isabelle''), endorsementCount = Some (Num 12) \<rparr>] \<rparr>"
  let ?k = "snd (run exampleEnv exampleUrl keepAliveState)"
  let ?r = "snd (run exampleEnv exampleUrl readyState)"
  note sk = endorsedSkill_scraped
  have k: "run exampleEnv exampleUrl keepAliveState = (Inr ?res, ?k)"
    using exampleUrl_valid by (simp add: model_defs example_defs sk)
  have r: "run exampleEnv exampleUrl readyState = (Inr ?res, ?r)"
    using exampleUrl_valid by (simp add: model_defs example_defs sk)
  have tk: "truthy (keepAlive (options keepAliveState))"
    and tr: "\<not> truthy (keepAlive (options readyState))"
    and l: "launched keepAliveState = 1" "launched readyState = 1"
    and a: "alive keepAliveState = [0]"
    by (simp_all add: example_defs)
  from keepAlive_disposition[OF k, of exampleEnv exampleUrl] tk benign_exampleEnv exampleUrl_valid l a
  obtain res2 s2 where "alive ?k = [0]" "run exampleEnv exampleUrl ?k = (Inr res2, s2)" "launched s2 = 1"
    by auto
  with k have 1: "\<exists>res s' res2 s2.
      run exampleEnv exampleUrl keepAliveState = (Inr res, s') \<and> alive s' = [0] \<and>
      run exampleEnv exampleUrl s' = (Inr res2, s2) \<and> launched s2 = 1"
    by blast
  from keepAlive_disposition[OF r, of exampleEnv exampleUrl] tr l
  obtain b e s2 where "browser ?r = Some b" "b \<notin> set (alive ?r)"
    "run exampleEnv exampleUrl ?r = (Inl e, s2)" "launched s2 = 1"
    by auto
  moreover have "browser ?r = Some 0"
    using run_steps[OF r] by (simp add: steps_def readyState_def)
  ultimately have "0 \<notin> set (alive ?r)" "run exampleEnv exampleUrl ?r = (Inl e, s2)" "launched s2 = 1"
    by simp_all
  with r have 2: "\<exists>res s' e s2.
      run exampleEnv exampleUrl readyState = (Inr res, s') \<and> 0 \<notin> set (alive s') \<and>
      run exampleEnv exampleUrl s' = (Inl e, s2) \<and> launched s2 = 1"
    by blast
  from tk tr 1 2 show ?thesis by simp
qed

section \<open>Navigation timeouts\<close>

text \<open>
  Whatever the engine answers and in whatever order the three tasks are served, the only
  navigation a task makes is the one to its detail page, with \<^verbatim>\<open>waitUntil\<close> and no
  timeout.
\<close>

lemma navs_append: "navs (xs @ ys) = navs xs @ navs ys"
  by (induction xs rule: navs.induct) auto

lemma untimed_refl: "untimed s s"
  by (simp add: untimed_def)

lemma untimed_trans:
  assumes "untimed s s1" and "untimed s1 s2"
  shows "untimed s s2"
proof -
  from assms(1) obtain evs where 1: "trace s1 = trace s @ evs"
    "\<forall>n \<in> set (navs evs). snd n = (NetworkIdle2, None)"
    by (auto simp: untimed_def)
  from assms(2) obtain evs' where 2: "trace s2 = trace s1 @ evs'"
    "\<forall>n \<in> set (navs evs'). snd n = (NetworkIdle2, None)"
    by (auto simp: untimed_def)
  have "trace s2 = trace s @ (evs @ evs')" using 1 2 by simp
  moreover have "\<forall>n \<in> set (navs (evs @ evs')). snd n = (NetworkIdle2, None)"
    using 1 2 by (auto simp: navs_append)
  ultimately show ?thesis unfolding untimed_def by blast
qed

lemma untimed_emit: "navs [ev] = [] \<Longrightarrow> untimed s (emit ev s)"
  by (simp add: untimed_def emit_def)

lemma newPage_untimed: "newPage env b s = (r, s') \<Longrightarrow> untimed s s'"
  by (auto simp: newPage_def untimed_def emit_def Let_def split: option.splits if_splits)

lemma browserClose_untimed: "browserClose env b s = (r, s') \<Longrightarrow> untimed s s'"
  by (auto simp: browserClose_def untimed_def emit_def split: option.splits)

lemma closeThenThrow_untimed: "closeThenThrow env err b r s = (e, s') \<Longrightarrow> untimed s s'"
  by (auto simp: closeThenThrow_def afterBrowserClose_def treeKill_def untimed_refl
      split: sum.splits prod.splits option.splits if_splits bool.splits intro!: untimed_emit)

lemma catchInCreatePage_untimed: "catchInCreatePage env err s = (t, s') \<Longrightarrow> untimed s s'"
  by (auto simp: catchInCreatePage_def untimed_refl split: option.splits prod.splits
      dest: browserClose_untimed)

lemma resume_untimed:
  assumes "resume env u y f t s = (t', s')"
  shows "untimed s s'"
  using assms
  by (cases t)
     (auto simp: resume_def untimed_refl setupPage_def goto_def evaluate_def pageClose_def
         untimed_def emit_def
       split: sum.splits prod.splits
       dest: catchInCreatePage_untimed closeThenThrow_untimed)

lemma resumeTask_untimed: "resumeTask env pu i ts s = (ts', s') \<Longrightarrow> untimed s s'"
  by (auto simp: resumeTask_def split: if_splits prod.splits dest: resume_untimed)

lemma startTask_untimed: "startTask env s = (t, s') \<Longrightarrow> untimed s s'"
  by (auto simp: startTask_def untimed_refl split: option.splits prod.splits dest: newPage_untimed)

lemma startTasks_untimed:
  fixes ts :: "('x, 'e) tasks"
  assumes "startTasks env s = (ts, s')"
  shows "untimed s s'"
proof -
  obtain t0 s0 where 0: "startTask env s = (t0 :: (experienceNode list, 'x list) task, s0)"
    by (cases "startTask env s :: (experienceNode list, 'x list) task \<times> state")
  obtain t1 s1 where 1: "startTask env s0 = (t1 :: ('e list, 'e list) task, s1)"
    by (cases "startTask env s0 :: ('e list, 'e list) task \<times> state")
  obtain t2 s2 where 2: "startTask env s1 = (t2 :: (skillNode list, Skill list) task, s2)"
    by (cases "startTask env s1 :: (skillNode list, Skill list) task \<times> state")
  from assms 0 1 2 have "s' = s2" by (simp add: startTasks_def)
  with startTask_untimed[OF 0] startTask_untimed[OF 1] startTask_untimed[OF 2] show ?thesis
    by (auto intro: untimed_trans)
qed

lemma awaitAll_untimed:
  "awaitAll env pu t0 k ts s = ((r, ts', k'), s') \<Longrightarrow> untimed s s'"
proof (induction env pu t0 k ts s rule: awaitAll.induct)
  case (1 env pu t0 k ts s)
  show ?case
  proof (cases "rejected ts")
    case (Some err)
    with "1.prems" show ?thesis by (simp add: awaitAll.simps[of env pu t0 k] untimed_refl)
  next
    case None
    show ?thesis
    proof (cases "fulfilled ts")
      case (Some v)
      with None "1.prems" show ?thesis by (simp add: awaitAll.simps[of env pu t0 k] untimed_refl)
    next
      case n: None
      obtain ts1 s1 where st: "resumeTask env pu (chosen (schedule env t0 k) ts) ts s = (ts1, s1)"
        by (cases "resumeTask env pu (chosen (schedule env t0 k) ts) ts s")
      with None n "1.prems" have "awaitAll env pu t0 (Suc k) ts1 s1 = ((r, ts', k'), s')"
        by (simp add: awaitAll.simps[of env pu t0 k])
      from "1.IH"[OF None n st[symmetric] this] have "untimed s1 s'" .
      with resumeTask_untimed[OF st] show ?thesis by (rule untimed_trans)
    qed
  qed
qed

lemma detailPages_untimed:
  assumes "detailPages env pu s = ((r, ts, k), s')"
  shows "untimed s s'"
proof -
  obtain ts0 s0 where st: "startTasks env s = (ts0, s0)" by (cases "startTasks env s")
  with assms have "awaitAll env pu (now s) 0 ts0 s0 = ((r, ts, k), s')"
    by (simp add: detailPages_def)
  with startTasks_untimed[OF st] show ?thesis by (auto dest: awaitAll_untimed intro: untimed_trans)
qed

text \<open>The navigations that do carry the configured timeout: the login check and the profile page.\<close>

lemma checkIfLoggedIn_navigation:
  assumes "createPage env s = (Inr page, s1)" and "checkIfLoggedIn env s = (r, s')"
  shows "\<exists>rest. trace s' = trace s1 @
           Goto page loginUrl DomContentLoaded (Some (timeout (options s))) # rest"
proof -
  from createPage_steps[OF assms(1)] have "options s1 = options s" by (simp add: steps_def)
  with assms show ?thesis
    by (auto simp: checkIfLoggedIn_def andThen_def gets_def goto_def pageClose_def emit_def
        ok_def throw_def split: sum.splits prod.splits if_splits)
qed

text \<open>
  C3: every navigation is to carry the configured timeout, and the three navigations to
  the detail pages do not. In a run of the example scraper, whose configured timeout is
  10000, the navigation to the profile page carries the timeout, as the navigation of the
  login check does, and the three navigations to the detail pages carry none: the
  extractors are not given the options and pass \<^verbatim>\<open>waitUntil\<close> only, so the engine's own
  default applies to them.
\<close>

theorem detail_navigations_carry_no_timeout:
  "timeout (options readyState) = JNumber (Num 10000) \<and>
   navs (drop (length (trace readyState)) (trace (snd (run exampleEnv exampleUrl readyState)))) =
     [(exampleUrl, DomContentLoaded, Some (JNumber (Num 10000))),
      (exampleUrl @ ''/details/experience'', NetworkIdle2, None),
      (exampleUrl @ ''/details/education'', NetworkIdle2, None),
      (exampleUrl @ ''/details/skills'', NetworkIdle2, None)]"
  using exampleUrl_valid
  by (simp add: model_defs example_defs)

end
